theory Spec2Isabelle
  imports Main "HOL-Library.Word"
begin

section \<open>The batch/oracle contract: contracts/NFT_Fusion_GameFi.sol\<close>

subsection \<open>Solidity value types\<close>

type_synonym uint256 = "256 word"
type_synonym bytes32 = "256 word"
type_synonym address = "160 word"
type_synonym bytes = "8 word list"

text \<open>
  Checked arithmetic of Solidity 0.8: an addition whose mathematical result does not fit
  256 bits reverts with a panic instead of wrapping.
\<close>

definition checked_add :: "uint256 \<Rightarrow> uint256 \<Rightarrow> uint256 option" where
  "checked_add a b = (if unat a + unat b < 2 ^ 256 then Some (a + b) else None)"

definition incr :: "uint256 \<Rightarrow> uint256 option" where
  "incr a = checked_add a 1"

subsection \<open>The FHE library, as the contract sees it\<close>

text \<open>
  Modelled from the spec: the type \<^verbatim>\<open>euint32\<close> and the functions \<^verbatim>\<open>FHE.asEuint32\<close>,
  \<^verbatim>\<open>isInitialized\<close>, \<^verbatim>\<open>add\<close>, \<^verbatim>\<open>div\<close> and \<^verbatim>\<open>toBytes32\<close> of the library
  \<^verbatim>\<open>@fhevm/solidity\<close>, which the contract imports and the repository does not contain.
  The specification has encrypted 32-bit integers that the contract adds and divides
  without seeing them and that the oracle decrypts. On chain an \<^verbatim>\<open>euint32\<close> is a
  handle: the library computes the handle of a result from the operation and the handles
  of its operands and never sees a plaintext. The handles are modelled as the terms that
  built them: \<open>Uninitialized\<close> is the zero handle, \<open>Trivial v\<close> is
  \<^verbatim>\<open>FHE.asEuint32(v)\<close>, \<open>Input k v\<close> is a ciphertext that arrived from outside (its
  identity \<open>k\<close> and the plaintext \<open>v\<close> it hides), \<open>Add\<close> and \<open>Div\<close> are the results of
  \<^verbatim>\<open>add\<close> and \<^verbatim>\<open>div\<close>. \<^verbatim>\<open>toBytes32\<close> is the identity on handles. Access-control
  reverts of the library are not modelled: its operations succeed on every handle.
\<close>

datatype euint32 =
    Uninitialized
  | Trivial uint256
  | Input nat "32 word"
  | Add euint32 euint32
  | Div euint32 euint32

definition asEuint32 :: "uint256 \<Rightarrow> euint32" where
  "asEuint32 v = Trivial v"

definition isInitialized :: "euint32 \<Rightarrow> bool" where
  "isInitialized h = (h \<noteq> Uninitialized)"

definition fhe_add :: "euint32 \<Rightarrow> euint32 \<Rightarrow> euint32" where
  "fhe_add a b = Add a b"

definition fhe_div :: "euint32 \<Rightarrow> euint32 \<Rightarrow> euint32" where
  "fhe_div a b = Div a b"

text \<open>
  Modelled from the spec: what the decryption oracle, which is not in the repository,
  finds behind a handle. The specification has it return the plaintexts of the
  ciphertexts it was sent: 32-bit arithmetic on the plaintexts of the inputs. The
  quotient by an encrypted zero is whatever the scheme yields; it is the parameter
  \<open>dz\<close>, applied to the dividend.
\<close>

fun decrypt :: "(32 word \<Rightarrow> 32 word) \<Rightarrow> euint32 \<Rightarrow> 32 word" where
  "decrypt dz Uninitialized = 0"
| "decrypt dz (Trivial v) = ucast v"
| "decrypt dz (Input k v) = v"
| "decrypt dz (Add a b) = decrypt dz a + decrypt dz b"
| "decrypt dz (Div a b) =
     (if decrypt dz b = 0 then dz (decrypt dz a) else decrypt dz a div decrypt dz b)"

subsection \<open>Errors, events, storage\<close>

text \<open>
  The thirteen declared errors, and the three reverts that carry no declared error:
  \<open>Panic\<close> (checked arithmetic), \<open>SignatureCheckRevert\<close> (\<^verbatim>\<open>FHE.checkSignatures\<close>
  rejecting the proof) and \<open>AbiDecodeRevert\<close> (\<^verbatim>\<open>abi.decode\<close> on too few bytes).
\<close>

datatype error =
    NotOwner | NotProvider | Paused | CooldownActive | BatchClosed | InvalidBatch
  | NotEnoughNFTs | InvalidNFT | ReplayAttempt | StateMismatch | InvalidProof
  | AlreadyInitialized | NotInitialized
  | Panic | SignatureCheckRevert | AbiDecodeRevert

text \<open>
  The events of the contract (\<open>PausedEv\<close> and \<open>BatchClosedEv\<close> are the events
  \<^verbatim>\<open>Paused\<close> and \<^verbatim>\<open>BatchClosed\<close>, whose names the errors already have), and
  \<open>DecryptionRequested\<close>: the call \<^verbatim>\<open>FHE.requestDecryption(cts, selector)\<close> with the
  request id it returned and the ciphertexts it submitted.
\<close>

datatype event =
    ProviderAdded address
  | ProviderRemoved address
  | PausedEv address
  | Unpaused address
  | CooldownSet uint256 uint256
  | BatchOpened uint256
  | BatchClosedEv uint256
  | NFTSubmitted address uint256 uint256
  | FusionRequested uint256 uint256 bytes32
  | FusionCompleted uint256 uint256 uint256 "uint256 list"
  | DecryptionRequested uint256 "euint32 list"

record DecryptionContext =
  batchId :: uint256
  stateHash :: bytes32
  processed :: bool

record NFTData =
  attr1 :: euint32
  attr2 :: euint32
  attr3 :: euint32
  initialized :: bool

record Batch =
  isOpen :: bool
  numNFTs :: uint256
  nftOwners :: "uint256 \<Rightarrow> address"
  nftData :: "uint256 \<Rightarrow> NFTData"

record storage =
  owner :: address
  isProvider :: "address \<Rightarrow> bool"
  paused :: bool
  cooldownSeconds :: uint256
  lastSubmissionTime :: "address \<Rightarrow> uint256"
  lastRequestTime :: "address \<Rightarrow> uint256"
  currentBatchId :: uint256
  batches :: "uint256 \<Rightarrow> Batch"
  decryptionContexts :: "uint256 \<Rightarrow> DecryptionContext"
  lastTokenId :: uint256

text \<open>A Solidity mapping holds the zero value of its value type at every key never written.\<close>

definition default_NFTData :: NFTData where
  "default_NFTData =
     \<lparr>attr1 = Uninitialized, attr2 = Uninitialized, attr3 = Uninitialized, initialized = False\<rparr>"

definition default_Batch :: Batch where
  "default_Batch =
     \<lparr>isOpen = False, numNFTs = 0, nftOwners = (\<lambda>_. 0), nftData = (\<lambda>_. default_NFTData)\<rparr>"

definition default_DecryptionContext :: DecryptionContext where
  "default_DecryptionContext = \<lparr>batchId = 0, stateHash = 0, processed = False\<rparr>"

subsection \<open>What a call receives from outside\<close>

text \<open>
  \<open>chain\<close> is fixed for a deployment: \<^verbatim>\<open>keccak256(abi.encode(cts, address(this)))\<close> as a
  function of the handles and the address (any function: no property of the hash is
  assumed), the contract's own address, and the verdict of \<^verbatim>\<open>FHE.checkSignatures\<close> on a
  request id, the cleartexts and the proof. \<open>env\<close> changes with each call:
  \<^verbatim>\<open>msg.sender\<close>, \<^verbatim>\<open>block.timestamp\<close>, and the id that \<^verbatim>\<open>FHE.requestDecryption\<close>
  returns if the call makes a request.
\<close>

record chain =
  keccak256 :: "euint32 list \<times> address \<Rightarrow> bytes32"
  this_address :: address
  checkSignatures :: "uint256 \<Rightarrow> bytes \<Rightarrow> bytes \<Rightarrow> bool"

record env =
  sender :: address
  timestamp :: uint256
  oracleRequestId :: uint256

text \<open>
  A call either reverts or returns. The model keeps, with the error, the storage as the
  code had written it when it reverted, so that what a reverting call had already
  written is visible; \<open>transact\<close> below is the ledger, which discards it.
\<close>

type_synonym result = "(error \<times> storage) + (storage \<times> event list)"

subsection \<open>Modifiers\<close>

definition onlyOwner :: "env \<Rightarrow> storage \<Rightarrow> error option" where
  "onlyOwner e s = (if sender e \<noteq> owner s then Some NotOwner else None)"

definition onlyProvider :: "env \<Rightarrow> storage \<Rightarrow> error option" where
  "onlyProvider e s = (if \<not> isProvider s (sender e) then Some NotProvider else None)"

definition whenNotPaused :: "storage \<Rightarrow> error option" where
  "whenNotPaused s = (if paused s then Some Paused else None)"

definition checkCooldown :: "bool \<Rightarrow> env \<Rightarrow> storage \<Rightarrow> error option" where
  "checkCooldown isSubmission e s =
     (let cooldown = (if isSubmission then lastSubmissionTime s (sender e)
                      else lastRequestTime s (sender e))
      in case checked_add cooldown (cooldownSeconds s) of
           None \<Rightarrow> Some Panic
         | Some t \<Rightarrow> if timestamp e < t then Some CooldownActive else None)"

text \<open>Modifiers run in the order they are written; the first that reverts ends the call.\<close>

fun modifiers :: "error option list \<Rightarrow> error option" where
  "modifiers [] = None"
| "modifiers (None # ms) = modifiers ms"
| "modifiers (Some err # ms) = Some err"

subsection \<open>Constructor and administration\<close>

definition constructor :: "env \<Rightarrow> storage" where
  "constructor e =
     \<lparr>owner = sender e,
      isProvider = (\<lambda>_. False)(sender e := True),
      paused = False,
      cooldownSeconds = 30,
      lastSubmissionTime = (\<lambda>_. 0),
      lastRequestTime = (\<lambda>_. 0),
      currentBatchId = 1,
      batches = (\<lambda>_. default_Batch),
      decryptionContexts = (\<lambda>_. default_DecryptionContext),
      lastTokenId = 0\<rparr>"

definition addProvider :: "env \<Rightarrow> address \<Rightarrow> storage \<Rightarrow> result" where
  "addProvider e p s =
     (case modifiers [onlyOwner e s] of
        Some err \<Rightarrow> Inl (err, s)
      | None \<Rightarrow> Inr (s\<lparr>isProvider := (isProvider s)(p := True)\<rparr>, [ProviderAdded p]))"

definition removeProvider :: "env \<Rightarrow> address \<Rightarrow> storage \<Rightarrow> result" where
  "removeProvider e p s =
     (case modifiers [onlyOwner e s] of
        Some err \<Rightarrow> Inl (err, s)
      | None \<Rightarrow> Inr (s\<lparr>isProvider := (isProvider s)(p := False)\<rparr>, [ProviderRemoved p]))"

definition pause :: "env \<Rightarrow> storage \<Rightarrow> result" where
  "pause e s =
     (case modifiers [onlyOwner e s, whenNotPaused s] of
        Some err \<Rightarrow> Inl (err, s)
      | None \<Rightarrow> Inr (s\<lparr>paused := True\<rparr>, [PausedEv (sender e)]))"

definition unpause :: "env \<Rightarrow> storage \<Rightarrow> result" where
  "unpause e s =
     (case modifiers [onlyOwner e s] of
        Some err \<Rightarrow> Inl (err, s)
      | None \<Rightarrow> Inr (s\<lparr>paused := False\<rparr>, [Unpaused (sender e)]))"

definition setCooldownSeconds :: "env \<Rightarrow> uint256 \<Rightarrow> storage \<Rightarrow> result" where
  "setCooldownSeconds e c s =
     (case modifiers [onlyOwner e s] of
        Some err \<Rightarrow> Inl (err, s)
      | None \<Rightarrow> Inr (s\<lparr>cooldownSeconds := c\<rparr>, [CooldownSet (cooldownSeconds s) c]))"

subsection \<open>Batches\<close>

definition upd_batch :: "uint256 \<Rightarrow> (Batch \<Rightarrow> Batch) \<Rightarrow> storage \<Rightarrow> storage" where
  "upd_batch b f s = s\<lparr>batches := (batches s)(b := f (batches s b))\<rparr>"

definition openBatch :: "env \<Rightarrow> storage \<Rightarrow> result" where
  "openBatch e s =
     (case modifiers [onlyOwner e s] of
        Some err \<Rightarrow> Inl (err, s)
      | None \<Rightarrow>
         (case incr (currentBatchId s) of
            None \<Rightarrow> Inl (Panic, s)
          | Some b \<Rightarrow>
             let s1 = s\<lparr>currentBatchId := b\<rparr>;
                 s2 = upd_batch (currentBatchId s1) (\<lambda>x. x\<lparr>isOpen := True\<rparr>) s1;
                 s3 = upd_batch (currentBatchId s2) (\<lambda>x. x\<lparr>numNFTs := 0\<rparr>) s2
             in Inr (s3, [BatchOpened (currentBatchId s3)])))"

definition closeBatch :: "env \<Rightarrow> storage \<Rightarrow> result" where
  "closeBatch e s =
     (case modifiers [onlyOwner e s] of
        Some err \<Rightarrow> Inl (err, s)
      | None \<Rightarrow>
         if \<not> isOpen (batches s (currentBatchId s)) then Inl (BatchClosed, s)
         else let s1 = upd_batch (currentBatchId s) (\<lambda>x. x\<lparr>isOpen := False\<rparr>) s
              in Inr (s1, [BatchClosedEv (currentBatchId s1)]))"

definition submitNFT :: "env \<Rightarrow> euint32 \<Rightarrow> euint32 \<Rightarrow> euint32 \<Rightarrow> storage \<Rightarrow> result" where
  "submitNFT e a1 a2 a3 s =
     (case modifiers [onlyProvider e s, whenNotPaused s, checkCooldown True e s] of
        Some err \<Rightarrow> Inl (err, s)
      | None \<Rightarrow>
         if \<not> isOpen (batches s (currentBatchId s)) then Inl (BatchClosed, s)
         else if \<not> isInitialized a1 \<or> \<not> isInitialized a2 \<or> \<not> isInitialized a3
           then Inl (NotInitialized, s)
         else
           let cur = currentBatchId s;
               nftIndex = numNFTs (batches s cur);
               s1 = upd_batch cur (\<lambda>x. x\<lparr>nftOwners := (nftOwners x)(nftIndex := sender e)\<rparr>) s;
               s2 = upd_batch cur
                      (\<lambda>x. x\<lparr>nftData := (nftData x)(nftIndex :=
                          \<lparr>attr1 = a1, attr2 = a2, attr3 = a3, initialized = True\<rparr>)\<rparr>) s1
           in case incr (numNFTs (batches s2 cur)) of
                None \<Rightarrow> Inl (Panic, s2)
              | Some n \<Rightarrow>
                 let s3 = upd_batch cur (\<lambda>x. x\<lparr>numNFTs := n\<rparr>) s2;
                     s4 = s3\<lparr>lastSubmissionTime :=
                              (lastSubmissionTime s3)(sender e := timestamp e)\<rparr>
                 in Inr (s4, [NFTSubmitted (sender e) nftIndex cur]))"

subsection \<open>Fusion request and oracle callback\<close>

text \<open>
  The loop \<^verbatim>\<open>for (uint256 i = 0; i < numNFTs; i++)\<close> of \<^verbatim>\<open>fuseNFTs\<close> and
  \<^verbatim>\<open>myCallback\<close>: from index \<open>i\<close> on, with the three running sums.
\<close>

function sumAttributes ::
  "(uint256 \<Rightarrow> NFTData) \<Rightarrow> uint256 \<Rightarrow> uint256 \<Rightarrow> euint32 \<times> euint32 \<times> euint32
     \<Rightarrow> error + euint32 \<times> euint32 \<times> euint32" where
  "sumAttributes d n i (s1, s2, s3) =
     (if i < n then
        (let nft = d i in
         if \<not> initialized nft then Inl InvalidNFT
         else sumAttributes d n (i + 1)
                (fhe_add s1 (attr1 nft), fhe_add s2 (attr2 nft), fhe_add s3 (attr3 nft)))
      else Inr (s1, s2, s3))"
  by pat_completeness auto
termination
proof (relation "measure (\<lambda>(d, n, i, acc). unat n - unat i)")
  show "wf (measure (\<lambda>(d, n, i, acc). unat n - unat i))" by simp
next
  fix d :: "uint256 \<Rightarrow> NFTData" and n i :: uint256 and s1 s2 s3 :: euint32 and x :: NFTData
  assume lt: "i < n"
  then have "unat i < unat n" by (simp add: word_less_nat_alt)
  moreover have "unat n < 2 ^ LENGTH(256)"
    by (rule unsigned_less)
  ultimately have "unat i + unat (1 :: uint256) < 2 ^ LENGTH(256)"
    by simp
  then have "unat (i + 1) = unat i + 1"
    by (simp add: unat_add_lem [THEN iffD1])
  with \<open>unat i < unat n\<close>
  show "((d, n, i + 1, fhe_add s1 (attr1 x), fhe_add s2 (attr2 x), fhe_add s3 (attr3 x)),
                    (d, n, i, s1, s2, s3)) \<in> measure (\<lambda>(d, n, i, acc). unat n - unat i)"
    by simp
qed

declare sumAttributes.simps [simp del]

text \<open>
  The three averaged ciphertexts \<^verbatim>\<open>cts\<close> that both functions build from a batch of
  \<open>n\<close> entries: the sums, each divided by \<^verbatim>\<open>FHE.asEuint32(n)\<close>.
\<close>

definition averagedCiphertexts :: "(uint256 \<Rightarrow> NFTData) \<Rightarrow> uint256 \<Rightarrow> error + euint32 list" where
  "averagedCiphertexts d n =
     (case sumAttributes d n 0 (asEuint32 0, asEuint32 0, asEuint32 0) of
        Inl err \<Rightarrow> Inl err
      | Inr (s1, s2, s3) \<Rightarrow>
         Inr [fhe_div s1 (asEuint32 n), fhe_div s2 (asEuint32 n), fhe_div s3 (asEuint32 n)])"

definition hashCiphertexts :: "chain \<Rightarrow> euint32 list \<Rightarrow> bytes32" where
  "hashCiphertexts c cts = keccak256 c (cts, this_address c)"

definition fuseNFTs :: "chain \<Rightarrow> env \<Rightarrow> uint256 \<Rightarrow> storage \<Rightarrow> result" where
  "fuseNFTs c e b s =
     (case modifiers [onlyProvider e s, whenNotPaused s, checkCooldown False e s] of
        Some err \<Rightarrow> Inl (err, s)
      | None \<Rightarrow>
         if b = 0 \<or> b > currentBatchId s then Inl (InvalidBatch, s)
         else if numNFTs (batches s b) < 2 then Inl (NotEnoughNFTs, s)
         else
           (case averagedCiphertexts (nftData (batches s b)) (numNFTs (batches s b)) of
              Inl err \<Rightarrow> Inl (err, s)
            | Inr cts \<Rightarrow>
               let h = hashCiphertexts c cts;
                   requestId = oracleRequestId e;
                   s1 = s\<lparr>decryptionContexts := (decryptionContexts s)(requestId :=
                            \<lparr>batchId = b, stateHash = h, processed = False\<rparr>)\<rparr>;
                   s2 = s1\<lparr>lastRequestTime := (lastRequestTime s1)(sender e := timestamp e)\<rparr>
               in Inr (s2, [DecryptionRequested requestId cts, FusionRequested requestId b h])))"

text \<open>
  \<^verbatim>\<open>abi.decode(data, (uint256))\<close>: the first 32 bytes, big-endian; it reverts on fewer.
\<close>

definition abi_decode_uint256 :: "bytes \<Rightarrow> uint256 option" where
  "abi_decode_uint256 bs =
     (if length bs < 32 then None
      else Some (foldl (\<lambda>acc x. acc * 256 + ucast x) 0 (take 32 bs)))"

definition myCallback :: "chain \<Rightarrow> env \<Rightarrow> uint256 \<Rightarrow> bytes \<Rightarrow> bytes \<Rightarrow> storage \<Rightarrow> result" where
  "myCallback c e requestId cleartexts proof s =
     (if processed (decryptionContexts s requestId) then Inl (ReplayAttempt, s)
      else
        let batch = batches s (batchId (decryptionContexts s requestId));
            n = numNFTs batch
        in case averagedCiphertexts (nftData batch) n of
             Inl err \<Rightarrow> Inl (err, s)
           | Inr cts \<Rightarrow>
              if hashCiphertexts c cts \<noteq> stateHash (decryptionContexts s requestId)
                then Inl (StateMismatch, s)
              else if \<not> checkSignatures c requestId cleartexts proof
                then Inl (SignatureCheckRevert, s)
              else
                (case (abi_decode_uint256 cleartexts,
                       abi_decode_uint256 (drop 32 cleartexts),
                       abi_decode_uint256 (drop 64 cleartexts)) of
                   (Some a1, Some a2, Some a3) \<Rightarrow>
                     (case incr (lastTokenId s) of
                        None \<Rightarrow> Inl (Panic, s)
                      | Some t \<Rightarrow>
                         let s1 = s\<lparr>lastTokenId := t\<rparr>;
                             s2 = s1\<lparr>decryptionContexts := (decryptionContexts s1)(requestId :=
                                      (decryptionContexts s1 requestId)\<lparr>processed := True\<rparr>)\<rparr>
                         in Inr (s2, [FusionCompleted requestId
                                        (batchId (decryptionContexts s2 requestId))
                                        (lastTokenId s2) [a1, a2, a3]]))
                 | _ \<Rightarrow> Inl (AbiDecodeRevert, s)))"

subsection \<open>The external interface and the ledger\<close>

text \<open>
  The external functions that write. The getters of the public state variables only read
  the storage and never revert; they are left out.
\<close>

datatype call =
    AddProvider address
  | RemoveProvider address
  | Pause
  | Unpause
  | SetCooldownSeconds uint256
  | OpenBatch
  | CloseBatch
  | SubmitNFT euint32 euint32 euint32
  | FuseNFTs uint256
  | MyCallback uint256 bytes bytes

fun exec :: "chain \<Rightarrow> env \<Rightarrow> call \<Rightarrow> storage \<Rightarrow> result" where
  "exec c e (AddProvider p) s = addProvider e p s"
| "exec c e (RemoveProvider p) s = removeProvider e p s"
| "exec c e Pause s = pause e s"
| "exec c e Unpause s = unpause e s"
| "exec c e (SetCooldownSeconds x) s = setCooldownSeconds e x s"
| "exec c e OpenBatch s = openBatch e s"
| "exec c e CloseBatch s = closeBatch e s"
| "exec c e (SubmitNFT a1 a2 a3) s = submitNFT e a1 a2 a3 s"
| "exec c e (FuseNFTs b) s = fuseNFTs c e b s"
| "exec c e (MyCallback r ct pf) s = myCallback c e r ct pf s"

text \<open>
  The ledger: a call that reverts leaves the storage as it was before the call, one that
  returns commits what it wrote.
\<close>

definition transact :: "chain \<Rightarrow> env \<Rightarrow> call \<Rightarrow> storage \<Rightarrow> storage \<times> (error + event list)" where
  "transact c e x s =
     (case exec c e x s of
        Inl (err, _) \<Rightarrow> (s, Inl err)
      | Inr (s', evs) \<Rightarrow> (s', Inr evs))"

text \<open>The storages the contract can be in: the constructor's, and what calls commit.\<close>

inductive reachable :: "chain \<Rightarrow> storage \<Rightarrow> bool" for c :: chain where
  init: "reachable c (constructor e)"
| step: "reachable c s \<Longrightarrow> exec c e x s = Inr (s', evs) \<Longrightarrow> reachable c s'"

text \<open>
  The errors that the specification names. \<open>AlreadyInitialized\<close> and \<open>NotInitialized\<close>
  are declared by the contract as well; the specification's list leaves them out.
\<close>

definition named_error :: "error \<Rightarrow> bool" where
  "named_error err =
     (err \<in> {NotOwner, NotProvider, Paused, CooldownActive, BatchClosed, InvalidBatch,
             NotEnoughNFTs, InvalidNFT, ReplayAttempt, StateMismatch, InvalidProof})"

text \<open>A sequence of calls, each with its own environment, through the ledger.\<close>

fun run :: "chain \<Rightarrow> (env \<times> call) list \<Rightarrow> storage \<Rightarrow> storage" where
  "run c [] s = s"
| "run c ((e, x) # xs) s = run c xs (fst (transact c e x s))"


text \<open>
  The storages reached without \<^verbatim>\<open>fuseNFTs\<close> ever having been given the request id
  \<open>r\<close> by the oracle library.
\<close>

inductive never_recorded :: "chain \<Rightarrow> uint256 \<Rightarrow> storage \<Rightarrow> bool" for c :: chain and r :: uint256 where
  fresh: "never_recorded c r (constructor e)"
| other: "never_recorded c r s \<Longrightarrow> exec c e x s = Inr (s', evs) \<Longrightarrow>
          (\<forall>b. x = FuseNFTs b \<longrightarrow> oracleRequestId e \<noteq> r) \<Longrightarrow> never_recorded c r s'"

text \<open>
  What the functions keep true of the storage: the current batch id is not 0, batch 0
  and the batches above the current one hold no entry, and every entry below a batch's
  count is initialized.
\<close>

definition wellformed :: "storage \<Rightarrow> bool" where
  "wellformed s \<longleftrightarrow>
     currentBatchId s \<noteq> 0 \<and>
     (\<forall>b. b = 0 \<or> currentBatchId s < b \<longrightarrow> numNFTs (batches s b) = 0) \<and>
     (\<forall>b i. i < numNFTs (batches s b) \<longrightarrow> initialized (nftData (batches s b) i))"

text \<open>
  The plaintexts behind one attribute of the entries of a batch, in the order of
  submission, as natural numbers.
\<close>

definition submitted :: "(32 word \<Rightarrow> 32 word) \<Rightarrow> (NFTData \<Rightarrow> euint32) \<Rightarrow> Batch \<Rightarrow> nat list" where
  "submitted dz attr b =
     map (\<lambda>k. unat (decrypt dz (attr (nftData b (of_nat k))))) [0..<unat (numNFTs b)]"

text \<open>
  The mean as the specification words it: the sum of the values, in arithmetic modulo
  \<open>2 ^ 32\<close>, divided by their number, the quotient truncated.
\<close>

definition mean_u32 :: "nat list \<Rightarrow> nat" where
  "mean_u32 vs = (sum_list vs mod 2 ^ 32) div length vs"

subsection \<open>A sample deployment\<close>

text \<open>
  Concrete values at which the definitions are evaluated. \<open>sample_keccak256\<close> stands in
  for the hash there and only there: every general statement below is proved for an
  arbitrary \<open>chain\<close>.
\<close>

fun handle_code :: "euint32 \<Rightarrow> uint256" where
  "handle_code Uninitialized = 0"
| "handle_code (Trivial v) = 1 + 5 * v"
| "handle_code (Input k v) = 2 + 5 * (of_nat k * 4294967296 + ucast v)"
| "handle_code (Add a b) = 3 + 5 * (handle_code a * 1000003 + handle_code b)"
| "handle_code (Div a b) = 4 + 5 * (handle_code a * 1000003 + handle_code b)"

definition sample_keccak256 :: "euint32 list \<times> address \<Rightarrow> bytes32" where
  "sample_keccak256 p = foldl (\<lambda>acc h. acc * 1000003 + handle_code h) (ucast (snd p)) (fst p)"

definition sample_chain :: chain where
  "sample_chain =
     \<lparr>keccak256 = sample_keccak256, this_address = 49374,
      checkSignatures = (\<lambda>r ct pf. pf = [1])\<rparr>"

definition at :: "address \<Rightarrow> uint256 \<Rightarrow> env" where
  "at a t = \<lparr>sender = a, timestamp = t, oracleRequestId = 7\<rparr>"

text \<open>
  A sample history: the owner (address 10) adds provider 11 and opens batch 2, both
  submit a triple, the provider requests the fusion (the oracle library returns request
  id 7), the oracle calls back with the three averages 15, 30 and 45.
\<close>

definition sample_setup :: "(env \<times> call) list" where
  "sample_setup =
     [(at 10 1, AddProvider 11),
      (at 10 2, OpenBatch),
      (at 10 100, SubmitNFT (Input 1 10) (Input 2 20) (Input 3 30)),
      (at 11 100, SubmitNFT (Input 4 20) (Input 5 40) (Input 6 61)),
      (at 11 200, FuseNFTs 2)]"

definition sample_requested :: storage where
  "sample_requested = run sample_chain sample_setup (constructor (at 10 0))"

definition sample_cleartexts :: bytes where
  "sample_cleartexts = replicate 31 0 @ [15] @ replicate 31 0 @ [30] @ replicate 31 0 @ [45]"

definition sample_fulfilled :: storage where
  "sample_fulfilled = run sample_chain [(at 12 300, MyCallback 7 sample_cleartexts [1])] sample_requested"

text \<open>The storage after the first \<open>k\<close> calls of the sample history.\<close>

definition sample_at :: "nat \<Rightarrow> storage" where
  "sample_at k = run sample_chain (take k sample_setup) (constructor (at 10 0))"

text \<open>A third submission into the still open batch, after and before the callback.\<close>

definition sample_mutated :: storage where
  "sample_mutated =
     run sample_chain [(at 10 400, SubmitNFT (Input 7 1) (Input 8 1) (Input 9 1))] sample_fulfilled"

definition sample_tampered :: storage where
  "sample_tampered =
     run sample_chain [(at 10 400, SubmitNFT (Input 7 1) (Input 8 1) (Input 9 1))] sample_requested"



definition sample_later :: "(env \<times> call) list" where
  "sample_later =
     [(at 10 400, SubmitNFT (Input 7 1) (Input 8 1) (Input 9 1)),
      ((at 11 500)\<lparr>oracleRequestId := 8\<rparr>, FuseNFTs 2),
      (at 10 600, CloseBatch)]"

section \<open>The client: frontend/web/src/App.tsx\<close>

text \<open>
  \<^verbatim>\<open>interface NFTAttribute\<close>: four numbers. The fields that go into the encoding are
  integers (\<open>int NFTAttribute\<close>); what comes out of the decoding are JavaScript values
  (\<open>jsnumber NFTAttribute\<close>). Integers stand for the Numbers that are integers and
  that \<^verbatim>\<open>String\<close> writes, and \<^verbatim>\<open>Number\<close> reads, digit by digit (the safe integers of
  IEEE doubles); beyond them the model goes on computing with exact integers.
\<close>

record 'n NFTAttribute =
  attack :: 'n
  defense :: 'n
  speed :: 'n
  rarity :: 'n

text \<open>
  What \<^verbatim>\<open>Number(s)\<close> or a destructured array element can be: an integer,
  \<^verbatim>\<open>undefined\<close>, or \<open>Unrefined\<close>: a value this model does not compute (\<^verbatim>\<open>NaN\<close>, or
  a number written with a fraction, an exponent, a radix prefix or as \<^verbatim>\<open>Infinity\<close>).
\<close>

datatype jsnumber = Integer int | Unrefined | Undefined

datatype js_error = InvalidCharacterError

text \<open>The template literal \<^verbatim>\<open>`${n}`\<close> of an integer: its decimal digits, after a minus sign if negative.\<close>

function decimal_digits :: "nat \<Rightarrow> string" where
  "decimal_digits n =
     (if n < 10 then [char_of (48 + n)]
      else decimal_digits (n div 10) @ [char_of (48 + n mod 10)])"
  by pat_completeness auto
termination
  by (relation "measure id") auto

declare decimal_digits.simps [simp del]

definition number_to_string :: "int \<Rightarrow> string" where
  "number_to_string n =
     (if n < 0 then CHR ''-'' # decimal_digits (nat (- n)) else decimal_digits (nat n))"

text \<open>
  \<^verbatim>\<open>btoa\<close> and \<^verbatim>\<open>atob\<close> are functions of the browser. \<^verbatim>\<open>btoa\<close> is base64 with
  padding: three bytes become four characters of the alphabet \<^verbatim>\<open>A-Z a-z 0-9 + /\<close>.
  A \<open>string\<close> holds bytes, so the exception of \<^verbatim>\<open>btoa\<close> on a code unit above 255 has
  no input here, and the strings given to \<^verbatim>\<open>FHEDecryptAttributes\<close> are those of code
  units up to 255.
\<close>

definition base64_char :: "nat \<Rightarrow> char" where
  "base64_char n =
     (if n < 26 then char_of (65 + n)
      else if n < 52 then char_of (71 + n)
      else if n < 62 then char_of (n - 4)
      else if n = 62 then CHR ''+'' else CHR ''/'')"

definition base64_index :: "char \<Rightarrow> nat option" where
  "base64_index c =
     (let k = (of_char c :: nat) in
      if 65 \<le> k \<and> k \<le> 90 then Some (k - 65)
      else if 97 \<le> k \<and> k \<le> 122 then Some (k - 71)
      else if 48 \<le> k \<and> k \<le> 57 then Some (k + 4)
      else if c = CHR ''+'' then Some 62
      else if c = CHR ''/'' then Some 63
      else None)"

fun sextets :: "nat list \<Rightarrow> nat list" where
  "sextets [] = []"
| "sextets [a] = [a div 4, a mod 4 * 16]"
| "sextets [a, b] = [a div 4, a mod 4 * 16 + b div 16, b mod 16 * 4]"
| "sextets (a # b # c # r) =
     [a div 4, a mod 4 * 16 + b div 16, b mod 16 * 4 + c div 64, c mod 64] @ sextets r"

definition btoa :: "string \<Rightarrow> string" where
  "btoa s =
     map base64_char (sextets (map of_char s)) @ replicate ((3 - length s mod 3) mod 3) CHR ''=''"

text \<open>
  \<^verbatim>\<open>atob\<close> is the forgiving base64 decoding: ASCII whitespace is dropped; if the length
  is then a multiple of 4, one or two final \<^verbatim>\<open>=\<close> are dropped; a length of 1 modulo 4
  or a character outside the alphabet is an \<open>InvalidCharacterError\<close>; the bits left
  over at the end are discarded.
\<close>

definition is_ascii_whitespace :: "char \<Rightarrow> bool" where
  "is_ascii_whitespace c = (of_char c \<in> {9, 10, 12, 13, 32 :: nat})"

definition remove_padding :: "string \<Rightarrow> string" where
  "remove_padding d =
     (if length d mod 4 = 0 then
        (if 2 \<le> length d \<and> drop (length d - 2) d = ''=='' then take (length d - 2) d
         else if 1 \<le> length d \<and> drop (length d - 1) d = ''='' then take (length d - 1) d
         else d)
      else d)"

fun octets :: "nat list \<Rightarrow> nat list" where
  "octets (x # y # z # w # r) =
     [x * 4 + y div 16, y mod 16 * 16 + z div 4, z mod 4 * 64 + w] @ octets r"
| "octets [x, y, z] = [x * 4 + y div 16, y mod 16 * 16 + z div 4]"
| "octets [x, y] = [x * 4 + y div 16]"
| "octets _ = []"

fun those_list :: "'a option list \<Rightarrow> 'a list option" where
  "those_list [] = Some []"
| "those_list (None # xs) = None"
| "those_list (Some x # xs) = (case those_list xs of None \<Rightarrow> None | Some ys \<Rightarrow> Some (x # ys))"

definition atob :: "string \<Rightarrow> js_error + string" where
  "atob s =
     (let d = remove_padding (filter (\<lambda>c. \<not> is_ascii_whitespace c) s) in
      if length d mod 4 = 1 then Inl InvalidCharacterError
      else case those_list (map base64_index d) of
             None \<Rightarrow> Inl InvalidCharacterError
           | Some v \<Rightarrow> Inr (map char_of (octets v)))"

text \<open>\<^verbatim>\<open>decrypted.split(',')\<close>: the pieces between the commas; one empty piece for the empty string.\<close>

fun split_comma :: "string \<Rightarrow> string list" where
  "split_comma [] = [[]]"
| "split_comma (c # cs) =
     (if c = CHR '','' then [] # split_comma cs
      else (case split_comma cs of p # ps \<Rightarrow> (c # p) # ps | [] \<Rightarrow> [[c]]))"

text \<open>
  \<^verbatim>\<open>Number(s)\<close> on a string: white space is trimmed at both ends, the empty string is
  0, an optional sign and decimal digits are that integer; everything else is
  \<open>Unrefined\<close>.
\<close>

definition is_js_whitespace :: "char \<Rightarrow> bool" where
  "is_js_whitespace c = (of_char c \<in> {9, 10, 11, 12, 13, 32, 160 :: nat})"

definition trim :: "string \<Rightarrow> string" where
  "trim s = rev (dropWhile is_js_whitespace (rev (dropWhile is_js_whitespace s)))"

definition is_digit :: "char \<Rightarrow> bool" where
  "is_digit c = (48 \<le> (of_char c :: nat) \<and> (of_char c :: nat) \<le> 57)"

definition digits_value :: "string \<Rightarrow> nat" where
  "digits_value s = foldl (\<lambda>acc c. acc * 10 + (of_char c - 48)) 0 s"

definition unsigned_decimal :: "string \<Rightarrow> nat option" where
  "unsigned_decimal s = (if s \<noteq> [] \<and> list_all is_digit s then Some (digits_value s) else None)"

definition Number :: "string \<Rightarrow> jsnumber" where
  "Number s =
     (case trim s of
        [] \<Rightarrow> Integer 0
      | c # r \<Rightarrow>
         if c = CHR ''-'' then
           (case unsigned_decimal r of Some v \<Rightarrow> Integer (- int v) | None \<Rightarrow> Unrefined)
         else if c = CHR ''+'' then
           (case unsigned_decimal r of Some v \<Rightarrow> Integer (int v) | None \<Rightarrow> Unrefined)
         else
           (case unsigned_decimal (c # r) of Some v \<Rightarrow> Integer (int v) | None \<Rightarrow> Unrefined))"

text \<open>
  The destructuring \<^verbatim>\<open>const [attack, defense, speed, rarity] = ...\<close>: the element at
  the position, \<^verbatim>\<open>undefined\<close> beyond the end of the array.
\<close>

definition element :: "jsnumber list \<Rightarrow> nat \<Rightarrow> jsnumber" where
  "element xs i = (if i < length xs then xs ! i else Undefined)"

definition FHEEncryptAttributes :: "int NFTAttribute \<Rightarrow> string" where
  "FHEEncryptAttributes attributes =
     (let data = number_to_string (attack attributes) @ '','' @
                 number_to_string (defense attributes) @ '','' @
                 number_to_string (speed attributes) @ '','' @
                 number_to_string (rarity attributes)
      in ''FHE-'' @ btoa data)"

definition FHEDecryptAttributes :: "string \<Rightarrow> js_error + jsnumber NFTAttribute" where
  "FHEDecryptAttributes encryptedData =
     (if take 4 encryptedData = ''FHE-'' then
        (case atob (drop 4 encryptedData) of
           Inl err \<Rightarrow> Inl err
         | Inr decrypted \<Rightarrow>
            let parts = map Number (split_comma decrypted)
            in Inr \<lparr>attack = element parts 0, defense = element parts 1,
                    speed = element parts 2, rarity = element parts 3\<rparr>)
      else Inr \<lparr>attack = Integer 0, defense = Integer 0, speed = Integer 0, rarity = Integer 0\<rparr>)"

section \<open>Properties of the contract\<close>

subsection \<open>Checked increments\<close>

lemma incr_Some: "incr a = Some b \<longleftrightarrow> unat a + 1 < 2 ^ 256 \<and> b = a + 1"
  by (auto simp: incr_def checked_add_def)

lemma incr_unat: "incr a = Some b \<Longrightarrow> unat b = Suc (unat a)"
proof -
  assume "incr a = Some b"
  then have "unat a + unat (1 :: uint256) < 2 ^ LENGTH(256)" and b: "b = a + 1"
    by (simp_all add: incr_Some)
  then have "unat (a + 1) = unat a + unat (1 :: uint256)"
    by (simp only: unat_add_lem [THEN iffD1])
  with b show ?thesis by simp
qed

lemma incr_less: "incr a = Some b \<Longrightarrow> a < b"
  by (simp add: word_less_nat_alt incr_unat)

lemma less_incr: "i < n \<Longrightarrow> incr i = Some (i + 1)"
proof -
  assume "i < n"
  then have "unat i < unat n" by (simp add: word_less_nat_alt)
  moreover have "unat n < 2 ^ LENGTH(256)" by (rule unsigned_less)
  ultimately show ?thesis by (simp add: incr_Some)
qed

lemma less_incr_iff: "incr n = Some m \<Longrightarrow> i < m \<longleftrightarrow> i < n \<or> i = n"
proof -
  assume "incr n = Some m"
  then have "unat m = Suc (unat n)" by (rule incr_unat)
  then have "i < m \<longleftrightarrow> i \<le> n"
    by (simp add: word_less_nat_alt word_le_nat_alt less_Suc_eq_le)
  then show ?thesis by (simp add: order_le_less)
qed

subsection \<open>The summation loop\<close>

lemma sumAttributes_step:
  "i < n \<Longrightarrow> initialized (d i) \<Longrightarrow>
   sumAttributes d n i (s1, s2, s3) =
   sumAttributes d n (i + 1)
     (fhe_add s1 (attr1 (d i)), fhe_add s2 (attr2 (d i)), fhe_add s3 (attr3 (d i)))"
  by (simp add: sumAttributes.simps [of d n i] Let_def)

lemma sumAttributes_invalid:
  "i < n \<Longrightarrow> \<not> initialized (d i) \<Longrightarrow> sumAttributes d n i (s1, s2, s3) = Inl InvalidNFT"
  by (simp add: sumAttributes.simps [of d n i] Let_def)

lemma sumAttributes_stop:
  "\<not> i < n \<Longrightarrow> sumAttributes d n i (s1, s2, s3) = Inr (s1, s2, s3)"
  by (simp add: sumAttributes.simps [of d n i])

lemma sumAttributes_total:
  "(\<forall>k. i \<le> k \<and> k < n \<longrightarrow> initialized (d k)) \<Longrightarrow> \<exists>r. sumAttributes d n i acc = Inr r"
proof (induction d n i acc rule: sumAttributes.induct)
  case (1 d n i s1 s2 s3)
  show ?case
  proof (cases "i < n")
    case True
    then have init: "initialized (d i)" using "1.prems" by simp
    have "i < i + 1"
      by (rule incr_less [OF less_incr [OF True]])
    then have "\<forall>k. i + 1 \<le> k \<and> k < n \<longrightarrow> initialized (d k)"
      using "1.prems" by auto
    with "1.IH" [OF True refl] init show ?thesis
      by (simp add: sumAttributes_step [of i n d, OF True init])
  next
    case False
    then show ?thesis by (simp add: sumAttributes_stop)
  qed
qed

lemma sumAttributes_decrypt:
  "sumAttributes d n i (s1, s2, s3) = Inr (r1, r2, r3) \<Longrightarrow>
     decrypt dz r1 = decrypt dz s1 + (\<Sum>k = unat i..<unat n. decrypt dz (attr1 (d (of_nat k)))) \<and>
     decrypt dz r2 = decrypt dz s2 + (\<Sum>k = unat i..<unat n. decrypt dz (attr2 (d (of_nat k)))) \<and>
     decrypt dz r3 = decrypt dz s3 + (\<Sum>k = unat i..<unat n. decrypt dz (attr3 (d (of_nat k))))"
proof (induction d n i "(s1, s2, s3)" arbitrary: s1 s2 s3 rule: sumAttributes.induct)
  case (1 d n i s1 s2 s3)
  show ?case
  proof (cases "i < n")
    case True
    then have lt: "unat i < unat n" by (simp add: word_less_nat_alt)
    have suc: "unat (i + 1) = Suc (unat i)"
      using less_incr [OF True] by (rule incr_unat)
    have init: "initialized (d i)"
    proof (rule ccontr)
      assume "\<not> initialized (d i)"
      with "1.prems" True show False by (simp add: sumAttributes_invalid)
    qed
    from "1.prems" have rec:
      "sumAttributes d n (i + 1)
         (fhe_add s1 (attr1 (d i)), fhe_add s2 (attr2 (d i)), fhe_add s3 (attr3 (d i)))
       = Inr (r1, r2, r3)"
      by (simp add: sumAttributes_step [of i n d, OF True init])
    have ih:
      "decrypt dz r1 = decrypt dz (fhe_add s1 (attr1 (d i))) +
          (\<Sum>k = unat (i + 1)..<unat n. decrypt dz (attr1 (d (of_nat k)))) \<and>
       decrypt dz r2 = decrypt dz (fhe_add s2 (attr2 (d i))) +
          (\<Sum>k = unat (i + 1)..<unat n. decrypt dz (attr2 (d (of_nat k)))) \<and>
       decrypt dz r3 = decrypt dz (fhe_add s3 (attr3 (d i))) +
          (\<Sum>k = unat (i + 1)..<unat n. decrypt dz (attr3 (d (of_nat k))))"
      using "1.hyps" [OF True refl _ rec] init by simp
    show ?thesis
      using ih lt
      by (simp add: suc fhe_add_def sum.atLeast_Suc_lessThan [OF lt] add.assoc)
  next
    case False
    then have "\<not> unat i < unat n" by (simp add: word_less_nat_alt)
    with "1.prems" False show ?thesis by (simp add: sumAttributes_stop)
  qed
qed


lemma unat_sum_u32:
  "unat (\<Sum>k = 0..<(n::nat). f k :: 32 word) = (\<Sum>k = 0..<n. unat (f k)) mod 2 ^ 32"
proof (induction n)
  case 0
  then show ?case by simp
next
  case (Suc n)
  have "unat (sum f {0..<Suc n}) = (unat (sum f {0..<n}) + unat (f n)) mod 2 ^ 32"
    by (simp add: unat_word_ariths)
  also have "\<dots> = ((\<Sum>k = 0..<n. unat (f k)) mod 2 ^ 32 + unat (f n)) mod 2 ^ 32"
    by (simp only: Suc.IH)
  also have "\<dots> = (\<Sum>k = 0..<Suc n. unat (f k)) mod 2 ^ 32"
    by (simp add: mod_add_left_eq)
  finally show ?case .
qed

lemma sum_list_submitted:
  "sum_list (submitted dz attr b)
     = (\<Sum>k = 0..<unat (numNFTs b). unat (decrypt dz (attr (nftData b (of_nat k)))))"
  by (simp add: submitted_def interv_sum_list_conv_sum_set_nat)

lemma averagedCiphertexts_decrypt:
  assumes "averagedCiphertexts d n = Inr cts"
  shows "\<exists>c1 c2 c3 r1 r2 r3. cts = [Div r1 (Trivial n), Div r2 (Trivial n), Div r3 (Trivial n)] \<and>
     decrypt dz r1 = (\<Sum>k = 0..<unat n. decrypt dz (attr1 (d (of_nat k)))) \<and>
     decrypt dz r2 = (\<Sum>k = 0..<unat n. decrypt dz (attr2 (d (of_nat k)))) \<and>
     decrypt dz r3 = (\<Sum>k = 0..<unat n. decrypt dz (attr3 (d (of_nat k))))"
proof -
  from assms obtain r1 r2 r3 where
    s: "sumAttributes d n 0 (asEuint32 0, asEuint32 0, asEuint32 0) = Inr (r1, r2, r3)"
    and cts: "cts = [fhe_div r1 (asEuint32 n), fhe_div r2 (asEuint32 n), fhe_div r3 (asEuint32 n)]"
    by (auto simp: averagedCiphertexts_def split: sum.splits)
  from sumAttributes_decrypt [OF s, of dz] cts show ?thesis
    by (simp add: asEuint32_def fhe_div_def)
qed

lemma mean_of_sum:
  fixes n :: uint256
  assumes r: "decrypt dz r = (\<Sum>k = 0..<unat n. decrypt dz (attr (nftData bt (of_nat k))))"
    and n: "numNFTs bt = n" and pos: "n \<noteq> 0"
  shows "ucast n \<noteq> (0 :: 32 word) \<longrightarrow>
           decrypt dz (Div r (Trivial n))
             = (\<Sum>k = 0..<unat n. decrypt dz (attr (nftData bt (of_nat k)))) div ucast n"
    and "unat n < 2 ^ 32 \<longrightarrow>
           unat (decrypt dz (Div r (Trivial n))) = mean_u32 (submitted dz attr bt)"
proof -
  show "ucast n \<noteq> (0 :: 32 word) \<longrightarrow>
           decrypt dz (Div r (Trivial n))
             = (\<Sum>k = 0..<unat n. decrypt dz (attr (nftData bt (of_nat k)))) div ucast n"
    by (simp add: r)
  show "unat n < 2 ^ 32 \<longrightarrow>
           unat (decrypt dz (Div r (Trivial n))) = mean_u32 (submitted dz attr bt)"
  proof
    assume small: "unat n < 2 ^ 32"
    have u: "unat (ucast n :: 32 word) = unat n"
      using small by (simp add: unsigned_ucast_eq take_bit_eq_mod)
    from pos have "unat n \<noteq> 0" by (simp add: unat_eq_0)
    with u have nz: "(ucast n :: 32 word) \<noteq> 0"
      by (metis unat_0)
    have len: "length (submitted dz attr bt) = unat n"
      by (simp add: submitted_def n)
    show "unat (decrypt dz (Div r (Trivial n))) = mean_u32 (submitted dz attr bt)"
      using nz
      by (simp add: r unat_div u mean_u32_def len sum_list_submitted n unat_sum_u32)
  qed
qed

lemma averagedCiphertexts_two:
  assumes "d 0 = \<lparr>attr1 = a1, attr2 = a2, attr3 = a3, initialized = True\<rparr>"
    and "d 1 = \<lparr>attr1 = b1, attr2 = b2, attr3 = b3, initialized = True\<rparr>"
  shows "averagedCiphertexts d 2 =
     Inr [Div (Add (Add (Trivial 0) a1) b1) (Trivial 2),
          Div (Add (Add (Trivial 0) a2) b2) (Trivial 2),
          Div (Add (Add (Trivial 0) a3) b3) (Trivial 2)]"
  using assms
  by (simp add: averagedCiphertexts_def sumAttributes.simps [of d] Let_def
      asEuint32_def fhe_add_def fhe_div_def)

subsection \<open>What a call that returns has done\<close>

lemma modifiers1 [simp]: "modifiers [a] = a"
  by (cases a) auto

lemma openBatch_Inr:
  "openBatch e s = Inr (s', evs) \<Longrightarrow>
     sender e = owner s \<and> incr (currentBatchId s) = Some (currentBatchId s + 1) \<and>
     s' = s\<lparr>currentBatchId := currentBatchId s + 1,
            batches := (batches s)(currentBatchId s + 1 :=
               (batches s (currentBatchId s + 1))\<lparr>isOpen := True, numNFTs := 0\<rparr>)\<rparr> \<and>
     evs = [BatchOpened (currentBatchId s + 1)]"
  by (auto simp: openBatch_def upd_batch_def Let_def onlyOwner_def incr_Some
      split: if_splits option.splits)

lemma closeBatch_Inr:
  "closeBatch e s = Inr (s', evs) \<Longrightarrow>
     sender e = owner s \<and> isOpen (batches s (currentBatchId s)) \<and>
     s' = s\<lparr>batches := (batches s)(currentBatchId s :=
               (batches s (currentBatchId s))\<lparr>isOpen := False\<rparr>)\<rparr> \<and>
     evs = [BatchClosedEv (currentBatchId s)]"
  by (auto simp: closeBatch_def upd_batch_def Let_def onlyOwner_def
      split: if_splits option.splits)

lemma submitNFT_Inr:
  "submitNFT e a1 a2 a3 s = Inr (s', evs) \<Longrightarrow>
     isProvider s (sender e) \<and> \<not> paused s \<and> checkCooldown True e s = None \<and>
     isOpen (batches s (currentBatchId s)) \<and>
     isInitialized a1 \<and> isInitialized a2 \<and> isInitialized a3 \<and>
     incr (numNFTs (batches s (currentBatchId s)))
       = Some (numNFTs (batches s (currentBatchId s)) + 1) \<and>
     s' = s\<lparr>batches := (batches s)(currentBatchId s :=
               (batches s (currentBatchId s))
                 \<lparr>nftOwners := (nftOwners (batches s (currentBatchId s)))
                     (numNFTs (batches s (currentBatchId s)) := sender e),
                  nftData := (nftData (batches s (currentBatchId s)))
                     (numNFTs (batches s (currentBatchId s)) :=
                        \<lparr>attr1 = a1, attr2 = a2, attr3 = a3, initialized = True\<rparr>),
                  numNFTs := numNFTs (batches s (currentBatchId s)) + 1\<rparr>),
            lastSubmissionTime := (lastSubmissionTime s)(sender e := timestamp e)\<rparr> \<and>
     evs = [NFTSubmitted (sender e) (numNFTs (batches s (currentBatchId s))) (currentBatchId s)]"
  by (auto simp: submitNFT_def upd_batch_def Let_def onlyProvider_def whenNotPaused_def incr_Some
      split: if_splits option.splits)

lemma fuseNFTs_Inr:
  "fuseNFTs c e b s = Inr (s', evs) \<Longrightarrow>
     \<exists>cts. isProvider s (sender e) \<and> \<not> paused s \<and> checkCooldown False e s = None \<and>
       b \<noteq> 0 \<and> b \<le> currentBatchId s \<and> 2 \<le> numNFTs (batches s b) \<and>
       averagedCiphertexts (nftData (batches s b)) (numNFTs (batches s b)) = Inr cts \<and>
       s' = s\<lparr>decryptionContexts := (decryptionContexts s)(oracleRequestId e :=
                 \<lparr>batchId = b, stateHash = hashCiphertexts c cts, processed = False\<rparr>),
              lastRequestTime := (lastRequestTime s)(sender e := timestamp e)\<rparr> \<and>
       evs = [DecryptionRequested (oracleRequestId e) cts,
              FusionRequested (oracleRequestId e) b (hashCiphertexts c cts)]"
  by (auto simp: fuseNFTs_def Let_def onlyProvider_def whenNotPaused_def not_less
      split: if_splits option.splits sum.splits)

lemma myCallback_Inr:
  "myCallback c e r ct pf s = Inr (s', evs) \<Longrightarrow>
     \<exists>cts w1 w2 w3.
       \<not> processed (decryptionContexts s r) \<and>
       averagedCiphertexts (nftData (batches s (batchId (decryptionContexts s r))))
          (numNFTs (batches s (batchId (decryptionContexts s r)))) = Inr cts \<and>
       hashCiphertexts c cts = stateHash (decryptionContexts s r) \<and>
       checkSignatures c r ct pf \<and>
       abi_decode_uint256 ct = Some w1 \<and> abi_decode_uint256 (drop 32 ct) = Some w2 \<and>
       abi_decode_uint256 (drop 64 ct) = Some w3 \<and>
       incr (lastTokenId s) = Some (lastTokenId s + 1) \<and>
       s' = s\<lparr>lastTokenId := lastTokenId s + 1,
              decryptionContexts := (decryptionContexts s)(r :=
                 (decryptionContexts s r)\<lparr>processed := True\<rparr>)\<rparr> \<and>
       evs = [FusionCompleted r (batchId (decryptionContexts s r)) (lastTokenId s + 1) [w1, w2, w3]]"
  by (auto simp: myCallback_def Let_def incr_Some
      split: if_splits option.splits sum.splits)

lemma admin_Inr:
  "addProvider e p s = Inr (s', evs) \<Longrightarrow> s' = s\<lparr>isProvider := (isProvider s)(p := True)\<rparr>"
  "removeProvider e p s = Inr (s', evs) \<Longrightarrow> s' = s\<lparr>isProvider := (isProvider s)(p := False)\<rparr>"
  "pause e s = Inr (s', evs) \<Longrightarrow> s' = s\<lparr>paused := True\<rparr>"
  "unpause e s = Inr (s', evs) \<Longrightarrow> s' = s\<lparr>paused := False\<rparr>"
  "setCooldownSeconds e x s = Inr (s', evs) \<Longrightarrow> s' = s\<lparr>cooldownSeconds := x\<rparr>"
  by (auto simp: addProvider_def removeProvider_def pause_def unpause_def setCooldownSeconds_def
      split: option.splits)

lemma fuseNFTs_returns:
  assumes "isProvider s (sender e)" "\<not> paused s" "checkCooldown False e s = None"
    and "b \<noteq> 0" "b \<le> currentBatchId s" "2 \<le> numNFTs (batches s b)"
    and init: "\<forall>i. i < numNFTs (batches s b) \<longrightarrow> initialized (nftData (batches s b) i)"
  shows "\<exists>s' evs. fuseNFTs c e b s = Inr (s', evs)"
proof -
  from init have "\<forall>k. 0 \<le> k \<and> k < numNFTs (batches s b) \<longrightarrow> initialized (nftData (batches s b) k)"
    by simp
  from sumAttributes_total [OF this, of "(asEuint32 0, asEuint32 0, asEuint32 0)"]
  obtain cts where "averagedCiphertexts (nftData (batches s b)) (numNFTs (batches s b)) = Inr cts"
    by (auto simp: averagedCiphertexts_def)
  with assms(1-6) show ?thesis
    by (simp add: fuseNFTs_def onlyProvider_def whenNotPaused_def Let_def not_less [symmetric])
qed

lemma two_submissions:
  assumes o: "openBatch e1 s0 = Inr (s1, ev1)"
    and a: "submitNFT e2 a1 a2 a3 s1 = Inr (s2, ev2)"
    and b: "submitNFT e3 b1 b2 b3 s2 = Inr (s3, ev3)"
  shows "currentBatchId s3 = currentBatchId s1"
    and "currentBatchId s1 \<noteq> 0"
    and "numNFTs (batches s3 (currentBatchId s1)) = 2"
    and "nftData (batches s3 (currentBatchId s1)) 0
           = \<lparr>attr1 = a1, attr2 = a2, attr3 = a3, initialized = True\<rparr>"
    and "nftData (batches s3 (currentBatchId s1)) 1
           = \<lparr>attr1 = b1, attr2 = b2, attr3 = b3, initialized = True\<rparr>"
proof -
  from openBatch_Inr [OF o]
  have inc: "incr (currentBatchId s0) = Some (currentBatchId s0 + 1)"
    and c1: "currentBatchId s1 = currentBatchId s0 + 1"
    and n1: "numNFTs (batches s1 (currentBatchId s1)) = 0"
    by simp_all
  from incr_less [OF inc] show "currentBatchId s1 \<noteq> 0"
    unfolding c1 by (metis word_not_simps(1))
  from submitNFT_Inr [OF a] n1
  have c2: "currentBatchId s2 = currentBatchId s1"
    and n2: "numNFTs (batches s2 (currentBatchId s1)) = 1"
    and d2: "nftData (batches s2 (currentBatchId s1)) 0
           = \<lparr>attr1 = a1, attr2 = a2, attr3 = a3, initialized = True\<rparr>"
    by simp_all
  from submitNFT_Inr [OF b] c2 n2 d2
  show "currentBatchId s3 = currentBatchId s1"
    and "numNFTs (batches s3 (currentBatchId s1)) = 2"
    and "nftData (batches s3 (currentBatchId s1)) 0
           = \<lparr>attr1 = a1, attr2 = a2, attr3 = a3, initialized = True\<rparr>"
    and "nftData (batches s3 (currentBatchId s1)) 1
           = \<lparr>attr1 = b1, attr2 = b2, attr3 = b3, initialized = True\<rparr>"
    by simp_all
qed

subsection \<open>The ledger\<close>

lemma transact_cases:
  "(\<exists>err s0. exec c e x s = Inl (err, s0) \<and> transact c e x s = (s, Inl err)) \<or>
   (\<exists>s' evs. exec c e x s = Inr (s', evs) \<and> transact c e x s = (s', Inr evs))"
  by (cases "exec c e x s") (auto simp: transact_def)

subsection \<open>What calls leave alone\<close>

lemma revert_before_any_write:
  "exec c e x s = Inl (err, s0) \<Longrightarrow> err \<noteq> Panic \<Longrightarrow> s0 = s"
  by (cases x)
     (auto simp: addProvider_def removeProvider_def pause_def unpause_def setCooldownSeconds_def
        openBatch_def closeBatch_def submitNFT_def fuseNFTs_def myCallback_def Let_def
      split: option.splits if_splits sum.splits prod.splits)



lemma exec_old_batches:
  assumes "exec c e x s = Inr (s', evs)" and "b < currentBatchId s"
  shows "batches s' b = batches s b \<and> currentBatchId s \<le> currentBatchId s'"
  using assms
  by (cases x) (auto dest!: admin_Inr openBatch_Inr closeBatch_Inr submitNFT_Inr fuseNFTs_Inr myCallback_Inr
        dest: incr_less)



lemma transact_old_batches:
  assumes "b < currentBatchId s"
  shows "batches (fst (transact c e x s)) b = batches s b \<and>
         currentBatchId s \<le> currentBatchId (fst (transact c e x s))"
  using transact_cases [of c e x s] assms exec_old_batches [of c e x s _ _ b]
  by auto

lemma run_old_batches:
  "b < currentBatchId s \<Longrightarrow>
     batches (run c tr s) b = batches s b \<and> currentBatchId s \<le> currentBatchId (run c tr s)"
proof (induction tr arbitrary: s)
  case Nil
  then show ?case by simp
next
  case (Cons a tr)
  obtain e x where a: "a = (e, x)" by (cases a)
  let ?s = "fst (transact c e x s)"
  from transact_old_batches [OF Cons.prems, of c e x]
  have st: "batches ?s b = batches s b" and le: "currentBatchId s \<le> currentBatchId ?s"
    by simp_all
  from Cons.prems le have "b < currentBatchId ?s" by simp
  from Cons.IH [OF this] st le show ?case
    by (auto simp: a)
qed

subsection \<open>Invariants of the reachable storages\<close>

lemma wellformed_constructor: "wellformed (constructor e)"
  by (simp add: wellformed_def constructor_def default_Batch_def)

lemma wellformed_openBatch:
  assumes "openBatch e s = Inr (s', evs)" and wf: "wellformed s"
  shows "wellformed s'"
proof -
  from openBatch_Inr [OF assms(1)]
  have inc: "incr (currentBatchId s) = Some (currentBatchId s + 1)"
    and s': "s' = s\<lparr>currentBatchId := currentBatchId s + 1,
            batches := (batches s)(currentBatchId s + 1 :=
               (batches s (currentBatchId s + 1))\<lparr>isOpen := True, numNFTs := 0\<rparr>)\<rparr>"
    by simp_all
  have lt: "currentBatchId s < currentBatchId s + 1"
    using inc by (rule incr_less)
  then have nz: "currentBatchId s + 1 \<noteq> 0"
    by (metis word_not_simps(1))
  show ?thesis
    using wf lt nz unfolding wellformed_def s'
    by (auto dest: order_less_trans)
qed

lemma wellformed_submitNFT:
  assumes "submitNFT e a1 a2 a3 s = Inr (s', evs)" and wf: "wellformed s"
  shows "wellformed s'"
proof -
  let ?cur = "currentBatchId s"
  let ?n = "numNFTs (batches s ?cur)"
  from submitNFT_Inr [OF assms(1)]
  have inc: "incr ?n = Some (?n + 1)"
    and s': "s' = s\<lparr>batches := (batches s)(?cur :=
               (batches s ?cur)
                 \<lparr>nftOwners := (nftOwners (batches s ?cur))(?n := sender e),
                  nftData := (nftData (batches s ?cur))
                     (?n := \<lparr>attr1 = a1, attr2 = a2, attr3 = a3, initialized = True\<rparr>),
                  numNFTs := ?n + 1\<rparr>),
            lastSubmissionTime := (lastSubmissionTime s)(sender e := timestamp e)\<rparr>"
    by simp_all
  note lti = less_incr_iff [OF inc]
  show ?thesis
    using wf unfolding wellformed_def s'
    by (auto simp: lti)
qed

lemma wellformed_exec:
  assumes "exec c e x s = Inr (s', evs)" and "wellformed s"
  shows "wellformed s'"
proof (cases x)
  case OpenBatch
  with assms show ?thesis by (simp add: wellformed_openBatch)
next
  case (SubmitNFT a1 a2 a3)
  with assms show ?thesis by (simp add: wellformed_submitNFT)
qed (use assms in \<open>auto simp: wellformed_def
      dest!: admin_Inr closeBatch_Inr fuseNFTs_Inr myCallback_Inr\<close>)

lemma reachable_wellformed: "reachable c s \<Longrightarrow> wellformed s"
  by (induction rule: reachable.induct) (auto intro: wellformed_constructor wellformed_exec)

lemma transact_reachable: "reachable c s \<Longrightarrow> reachable c (fst (transact c e x s))"
  using transact_cases [of c e x s] by (auto intro: reachable.step)

lemma run_reachable: "reachable c s \<Longrightarrow> reachable c (run c tr s)"
  by (induction tr arbitrary: s) (auto simp: transact_reachable)

lemma wellformed_averaged:
  "wellformed s \<Longrightarrow> \<exists>cts. averagedCiphertexts (nftData (batches s b)) (numNFTs (batches s b)) = Inr cts"
proof -
  assume "wellformed s"
  then have "\<forall>k. 0 \<le> k \<and> k < numNFTs (batches s b) \<longrightarrow> initialized (nftData (batches s b) k)"
    by (simp add: wellformed_def)
  from sumAttributes_total [OF this, of "(asEuint32 0, asEuint32 0, asEuint32 0)"]
  show ?thesis
    by (auto simp: averagedCiphertexts_def)
qed





lemma exec_append_only:
  assumes ex: "exec c e x s = Inr (s', evs)" and wf: "wellformed s"
  shows "numNFTs (batches s b) \<le> numNFTs (batches s' b) \<and>
         (\<forall>i. i < numNFTs (batches s b) \<longrightarrow>
            nftOwners (batches s' b) i = nftOwners (batches s b) i \<and>
            nftData (batches s' b) i = nftData (batches s b) i)"
proof (cases x)
  case OpenBatch
  with ex have ob: "openBatch e s = Inr (s', evs)" by simp
  from openBatch_Inr [OF ob]
  have inc: "incr (currentBatchId s) = Some (currentBatchId s + 1)"
    and s': "s' = s\<lparr>currentBatchId := currentBatchId s + 1,
            batches := (batches s)(currentBatchId s + 1 :=
               (batches s (currentBatchId s + 1))\<lparr>isOpen := True, numNFTs := 0\<rparr>)\<rparr>"
    by simp_all
  have "currentBatchId s < currentBatchId s + 1"
    using inc by (rule incr_less)
  with wf have "numNFTs (batches s (currentBatchId s + 1)) = 0"
    by (simp add: wellformed_def)
  then show ?thesis by (auto simp: s')
next
  case (SubmitNFT a1 a2 a3)
  with ex have sb: "submitNFT e a1 a2 a3 s = Inr (s', evs)" by simp
  let ?cur = "currentBatchId s"
  let ?n = "numNFTs (batches s ?cur)"
  from submitNFT_Inr [OF sb]
  have inc: "incr ?n = Some (?n + 1)"
    and s': "s' = s\<lparr>batches := (batches s)(?cur :=
               (batches s ?cur)
                 \<lparr>nftOwners := (nftOwners (batches s ?cur))(?n := sender e),
                  nftData := (nftData (batches s ?cur))
                     (?n := \<lparr>attr1 = a1, attr2 = a2, attr3 = a3, initialized = True\<rparr>),
                  numNFTs := ?n + 1\<rparr>),
            lastSubmissionTime := (lastSubmissionTime s)(sender e := timestamp e)\<rparr>"
    by simp_all
  have "?n < ?n + 1" using inc by (rule incr_less)
  then show ?thesis by (auto simp: s')
qed (use ex in \<open>auto dest!: admin_Inr closeBatch_Inr fuseNFTs_Inr myCallback_Inr\<close>)

lemma run_append_only:
  "reachable c s \<Longrightarrow>
     numNFTs (batches s b) \<le> numNFTs (batches (run c tr s) b) \<and>
     (\<forall>i. i < numNFTs (batches s b) \<longrightarrow>
        nftOwners (batches (run c tr s) b) i = nftOwners (batches s b) i \<and>
        nftData (batches (run c tr s) b) i = nftData (batches s b) i)"
proof (induction tr arbitrary: s)
  case Nil
  then show ?case by simp
next
  case (Cons a tr)
  obtain e x where a: "a = (e, x)" by (cases a)
  let ?s = "fst (transact c e x s)"
  have r: "reachable c ?s" using Cons.prems by (rule transact_reachable)
  have one: "numNFTs (batches s b) \<le> numNFTs (batches ?s b) \<and>
     (\<forall>i. i < numNFTs (batches s b) \<longrightarrow>
        nftOwners (batches ?s b) i = nftOwners (batches s b) i \<and>
        nftData (batches ?s b) i = nftData (batches s b) i)"
    using transact_cases [of c e x s] exec_append_only [of c e x s _ _ b]
      reachable_wellformed [OF Cons.prems]
    by auto
  from Cons.IH [OF r] one show ?case
    by (auto simp: a)
qed

lemma exec_isOpen:
  assumes "exec c e x s = Inr (s', evs)" and "isOpen (batches s' b) \<noteq> isOpen (batches s b)"
  shows "(x = OpenBatch \<or> x = CloseBatch) \<and> sender e = owner s"
  using assms
  by (cases x)
     (auto dest!: admin_Inr openBatch_Inr closeBatch_Inr submitNFT_Inr fuseNFTs_Inr myCallback_Inr
        split: if_splits)

subsection \<open>The sample history, evaluated\<close>

lemma foldl_zero_bytes:
  "foldl (\<lambda>acc x. acc * 256 + ucast x) (0 :: uint256) (replicate n (0 :: 8 word)) = 0"
  by (induction n) simp_all

lemma sample_decode:
  "abi_decode_uint256 sample_cleartexts = Some 15"
  "abi_decode_uint256 (drop 32 sample_cleartexts) = Some 30"
  "abi_decode_uint256 (drop 64 sample_cleartexts) = Some 45"
  by (simp_all add: sample_cleartexts_def abi_decode_uint256_def foldl_zero_bytes)

lemmas eval_defs =
  sample_setup_def sample_chain_def at_def constructor_def transact_def
  addProvider_def removeProvider_def pause_def unpause_def setCooldownSeconds_def
  openBatch_def closeBatch_def submitNFT_def fuseNFTs_def myCallback_def
  onlyOwner_def onlyProvider_def whenNotPaused_def checkCooldown_def checked_add_def incr_def
  upd_batch_def averagedCiphertexts_def hashCiphertexts_def asEuint32_def isInitialized_def
  fhe_add_def fhe_div_def default_Batch_def default_NFTData_def default_DecryptionContext_def
  sample_keccak256_def Let_def sumAttributes.simps sample_decode

lemmas sample_defs = sample_fulfilled_def sample_requested_def

lemma sample_requested_reachable: "reachable sample_chain sample_requested"
  unfolding sample_requested_def by (intro run_reachable reachable.init)

lemma sample_fulfilled_reachable: "reachable sample_chain sample_fulfilled"
  unfolding sample_fulfilled_def by (intro run_reachable sample_requested_reachable)

lemma sample_tampered_reachable: "reachable sample_chain sample_tampered"
  unfolding sample_tampered_def by (intro run_reachable sample_requested_reachable)

subsection \<open>Claim C1: a changed commitment\<close>

text \<open>
  Claim C1, as amended. In every reachable storage the recomputation of \<^verbatim>\<open>myCallback\<close>
  yields three ciphertexts, and if their commitment hash differs from the stored
  \<open>stateHash\<close> of the request, the callback reverts with nothing written, whatever the
  cleartexts, the proof and the verdict of the signature check: with \<open>StateMismatch\<close>
  when the request is not yet processed, with \<open>ReplayAttempt\<close> when it already is (the
  replay guard comes first).
\<close>

theorem callback_rejects_changed_commitment:
  "reachable c s \<Longrightarrow>
     \<exists>cts. averagedCiphertexts (nftData (batches s (batchId (decryptionContexts s r))))
              (numNFTs (batches s (batchId (decryptionContexts s r)))) = Inr cts \<and>
       (hashCiphertexts c cts \<noteq> stateHash (decryptionContexts s r) \<longrightarrow>
          myCallback c e r ct pf s =
            Inl (if processed (decryptionContexts s r) then ReplayAttempt else StateMismatch, s))"
proof -
  assume "reachable c s"
  then have "wellformed s" by (rule reachable_wellformed)
  from wellformed_averaged [OF this, of "batchId (decryptionContexts s r)"]
  obtain cts where "averagedCiphertexts (nftData (batches s (batchId (decryptionContexts s r))))
              (numNFTs (batches s (batchId (decryptionContexts s r)))) = Inr cts" ..
  then show ?thesis
    by (auto simp: myCallback_def Let_def)
qed

theorem callback_rejects_changed_commitment_witness:
  "reachable sample_chain sample_tampered \<and>
   averagedCiphertexts (nftData (batches sample_tampered (batchId (decryptionContexts sample_tampered 7))))
     (numNFTs (batches sample_tampered (batchId (decryptionContexts sample_tampered 7))))
     = Inr [Div (Add (Add (Add (Trivial 0) (Input 1 10)) (Input 4 20)) (Input 7 1)) (Trivial 3),
            Div (Add (Add (Add (Trivial 0) (Input 2 20)) (Input 5 40)) (Input 8 1)) (Trivial 3),
            Div (Add (Add (Add (Trivial 0) (Input 3 30)) (Input 6 61)) (Input 9 1)) (Trivial 3)] \<and>
   hashCiphertexts sample_chain
      [Div (Add (Add (Add (Trivial 0) (Input 1 10)) (Input 4 20)) (Input 7 1)) (Trivial 3),
       Div (Add (Add (Add (Trivial 0) (Input 2 20)) (Input 5 40)) (Input 8 1)) (Trivial 3),
       Div (Add (Add (Add (Trivial 0) (Input 3 30)) (Input 6 61)) (Input 9 1)) (Trivial 3)]
     \<noteq> stateHash (decryptionContexts sample_tampered 7) \<and>
   myCallback sample_chain (at 12 500) 7 sample_cleartexts [1] sample_tampered
     = Inl (StateMismatch, sample_tampered)"
proof -
  let ?cts = "[Div (Add (Add (Add (Trivial 0) (Input 1 10)) (Input 4 20)) (Input 7 1)) (Trivial 3),
            Div (Add (Add (Add (Trivial 0) (Input 2 20)) (Input 5 40)) (Input 8 1)) (Trivial 3),
            Div (Add (Add (Add (Trivial 0) (Input 3 30)) (Input 6 61)) (Input 9 1)) (Trivial 3)]"
  have a: "averagedCiphertexts
      (nftData (batches sample_tampered (batchId (decryptionContexts sample_tampered 7))))
      (numNFTs (batches sample_tampered (batchId (decryptionContexts sample_tampered 7))))
     = Inr ?cts"
    unfolding sample_tampered_def sample_defs by (simp add: eval_defs)
  have h: "hashCiphertexts sample_chain ?cts \<noteq> stateHash (decryptionContexts sample_tampered 7)"
    unfolding sample_tampered_def sample_defs by (simp add: eval_defs)
  have p: "\<not> processed (decryptionContexts sample_tampered 7)"
    unfolding sample_tampered_def sample_defs by (simp add: eval_defs)
  from callback_rejects_changed_commitment [OF sample_tampered_reachable,
      of 7 "at 12 500" sample_cleartexts "[1]"] a h p
  have "myCallback sample_chain (at 12 500) 7 sample_cleartexts [1] sample_tampered
     = Inl (StateMismatch, sample_tampered)"
    by auto
  with sample_tampered_reachable a h show ?thesis by simp
qed

text \<open>
  The claim as it is written fails on a processed request: in the sample history, after
  the callback has succeeded and a third entry has entered the open batch, the
  recomputed ciphertexts are others than those committed to, their hash differs from the
  stored one (here under \<open>sample_keccak256\<close>; by the theorem above the outcome is the
  same under every hash that tells them apart), and a further callback reverts with
  \<open>ReplayAttempt\<close>, not with \<open>StateMismatch\<close>.
\<close>

theorem callback_StateMismatch_counterexample:
  "processed (decryptionContexts sample_mutated 7) \<and>
   batchId (decryptionContexts sample_mutated 7) = 2 \<and>
   averagedCiphertexts (nftData (batches sample_mutated 2)) (numNFTs (batches sample_mutated 2))
     = Inr [Div (Add (Add (Add (Trivial 0) (Input 1 10)) (Input 4 20)) (Input 7 1)) (Trivial 3),
            Div (Add (Add (Add (Trivial 0) (Input 2 20)) (Input 5 40)) (Input 8 1)) (Trivial 3),
            Div (Add (Add (Add (Trivial 0) (Input 3 30)) (Input 6 61)) (Input 9 1)) (Trivial 3)] \<and>
   hashCiphertexts sample_chain
      [Div (Add (Add (Add (Trivial 0) (Input 1 10)) (Input 4 20)) (Input 7 1)) (Trivial 3),
       Div (Add (Add (Add (Trivial 0) (Input 2 20)) (Input 5 40)) (Input 8 1)) (Trivial 3),
       Div (Add (Add (Add (Trivial 0) (Input 3 30)) (Input 6 61)) (Input 9 1)) (Trivial 3)]
     \<noteq> stateHash (decryptionContexts sample_mutated 7) \<and>
   myCallback sample_chain (at 12 500) 7 sample_cleartexts [1] sample_mutated
     = Inl (ReplayAttempt, sample_mutated) \<and>
   myCallback sample_chain (at 12 500) 7 sample_cleartexts [1] sample_mutated
     \<noteq> Inl (StateMismatch, sample_mutated)"
proof -
  have p: "processed (decryptionContexts sample_mutated 7)"
    unfolding sample_mutated_def sample_defs by (simp add: eval_defs)
  have b: "batchId (decryptionContexts sample_mutated 7) = 2"
    unfolding sample_mutated_def sample_defs by (simp add: eval_defs)
  have a: "averagedCiphertexts (nftData (batches sample_mutated 2)) (numNFTs (batches sample_mutated 2))
     = Inr [Div (Add (Add (Add (Trivial 0) (Input 1 10)) (Input 4 20)) (Input 7 1)) (Trivial 3),
            Div (Add (Add (Add (Trivial 0) (Input 2 20)) (Input 5 40)) (Input 8 1)) (Trivial 3),
            Div (Add (Add (Add (Trivial 0) (Input 3 30)) (Input 6 61)) (Input 9 1)) (Trivial 3)]"
    unfolding sample_mutated_def sample_defs by (simp add: eval_defs)
  have h: "hashCiphertexts sample_chain
      [Div (Add (Add (Add (Trivial 0) (Input 1 10)) (Input 4 20)) (Input 7 1)) (Trivial 3),
       Div (Add (Add (Add (Trivial 0) (Input 2 20)) (Input 5 40)) (Input 8 1)) (Trivial 3),
       Div (Add (Add (Add (Trivial 0) (Input 3 30)) (Input 6 61)) (Input 9 1)) (Trivial 3)]
     \<noteq> stateHash (decryptionContexts sample_mutated 7)"
    unfolding sample_mutated_def sample_defs by (simp add: eval_defs)
  from p have m: "myCallback sample_chain (at 12 500) 7 sample_cleartexts [1] sample_mutated
     = Inl (ReplayAttempt, sample_mutated)"
    by (simp add: myCallback_def)
  from p b a h m show ?thesis by simp
qed

subsection \<open>Claim C2: the replay guard\<close>




subsection \<open>Claim C3: the averages\<close>

text \<open>
  Claim C3. When the caller passes the modifiers, the batch id is valid and the batch
  holds at least 2 entries, all initialized, \<^verbatim>\<open>fuseNFTs\<close> returns. Whenever it returns,
  it has submitted three ciphertexts to the oracle, and each decrypts to the sum of the
  entries' plaintexts for that attribute divided by the entry count, in 32-bit
  arithmetic, the count itself taken as an \<^verbatim>\<open>euint32\<close>; for a count below \<open>2 ^ 32\<close>
  that is the mean of the submitted values as the specification words it.
\<close>

theorem fused_ciphertexts_decrypt_to_mean:
  "(isProvider s (sender e) \<and> \<not> paused s \<and> checkCooldown False e s = None \<and>
    b \<noteq> 0 \<and> b \<le> currentBatchId s \<and> 2 \<le> numNFTs (batches s b) \<and>
    (\<forall>i. i < numNFTs (batches s b) \<longrightarrow> initialized (nftData (batches s b) i)) \<longrightarrow>
      (\<exists>s1 evs1. fuseNFTs c e b s = Inr (s1, evs1))) \<and>
   (fuseNFTs c e b s = Inr (s', evs) \<longrightarrow>
      (\<exists>c1 c2 c3.
         evs = [DecryptionRequested (oracleRequestId e) [c1, c2, c3],
                FusionRequested (oracleRequestId e) b (hashCiphertexts c [c1, c2, c3])] \<and>
         2 \<le> numNFTs (batches s b) \<and>
         (ucast (numNFTs (batches s b)) \<noteq> (0 :: 32 word) \<longrightarrow>
            decrypt dz c1 =
              (\<Sum>k = 0..<unat (numNFTs (batches s b)).
                  decrypt dz (attr1 (nftData (batches s b) (of_nat k))))
                div ucast (numNFTs (batches s b)) \<and>
            decrypt dz c2 =
              (\<Sum>k = 0..<unat (numNFTs (batches s b)).
                  decrypt dz (attr2 (nftData (batches s b) (of_nat k))))
                div ucast (numNFTs (batches s b)) \<and>
            decrypt dz c3 =
              (\<Sum>k = 0..<unat (numNFTs (batches s b)).
                  decrypt dz (attr3 (nftData (batches s b) (of_nat k))))
                div ucast (numNFTs (batches s b))) \<and>
         (unat (numNFTs (batches s b)) < 2 ^ 32 \<longrightarrow>
            unat (decrypt dz c1) = mean_u32 (submitted dz attr1 (batches s b)) \<and>
            unat (decrypt dz c2) = mean_u32 (submitted dz attr2 (batches s b)) \<and>
            unat (decrypt dz c3) = mean_u32 (submitted dz attr3 (batches s b)))))"
proof (intro conjI impI)
  assume "isProvider s (sender e) \<and> \<not> paused s \<and> checkCooldown False e s = None \<and>
    b \<noteq> 0 \<and> b \<le> currentBatchId s \<and> 2 \<le> numNFTs (batches s b) \<and>
    (\<forall>i. i < numNFTs (batches s b) \<longrightarrow> initialized (nftData (batches s b) i))"
  then show "\<exists>s1 evs1. fuseNFTs c e b s = Inr (s1, evs1)"
    by (intro fuseNFTs_returns) simp_all
next
  let ?bt = "batches s b"
  let ?n = "numNFTs ?bt"
  assume f: "fuseNFTs c e b s = Inr (s', evs)"
  from fuseNFTs_Inr [OF f] obtain cts where
    two: "2 \<le> ?n"
    and avg: "averagedCiphertexts (nftData ?bt) ?n = Inr cts"
    and evs: "evs = [DecryptionRequested (oracleRequestId e) cts,
              FusionRequested (oracleRequestId e) b (hashCiphertexts c cts)]"
    by auto
  from averagedCiphertexts_decrypt [OF avg, of dz] obtain r1 r2 r3 where
    cts: "cts = [Div r1 (Trivial ?n), Div r2 (Trivial ?n), Div r3 (Trivial ?n)]"
    and r1: "decrypt dz r1 = (\<Sum>k = 0..<unat ?n. decrypt dz (attr1 (nftData ?bt (of_nat k))))"
    and r2: "decrypt dz r2 = (\<Sum>k = 0..<unat ?n. decrypt dz (attr2 (nftData ?bt (of_nat k))))"
    and r3: "decrypt dz r3 = (\<Sum>k = 0..<unat ?n. decrypt dz (attr3 (nftData ?bt (of_nat k))))"
    by auto
  from two have pos: "?n \<noteq> 0" by auto
  note m1 = mean_of_sum [OF r1 refl pos] and m2 = mean_of_sum [OF r2 refl pos]
    and m3 = mean_of_sum [OF r3 refl pos]
  show "\<exists>c1 c2 c3.
         evs = [DecryptionRequested (oracleRequestId e) [c1, c2, c3],
                FusionRequested (oracleRequestId e) b (hashCiphertexts c [c1, c2, c3])] \<and>
         2 \<le> ?n \<and>
         (ucast ?n \<noteq> (0 :: 32 word) \<longrightarrow>
            decrypt dz c1 =
              (\<Sum>k = 0..<unat ?n. decrypt dz (attr1 (nftData ?bt (of_nat k)))) div ucast ?n \<and>
            decrypt dz c2 =
              (\<Sum>k = 0..<unat ?n. decrypt dz (attr2 (nftData ?bt (of_nat k)))) div ucast ?n \<and>
            decrypt dz c3 =
              (\<Sum>k = 0..<unat ?n. decrypt dz (attr3 (nftData ?bt (of_nat k)))) div ucast ?n) \<and>
         (unat ?n < 2 ^ 32 \<longrightarrow>
            unat (decrypt dz c1) = mean_u32 (submitted dz attr1 ?bt) \<and>
            unat (decrypt dz c2) = mean_u32 (submitted dz attr2 ?bt) \<and>
            unat (decrypt dz c3) = mean_u32 (submitted dz attr3 ?bt))"
    apply (rule exI [of _ "Div r1 (Trivial ?n)"])
    apply (rule exI [of _ "Div r2 (Trivial ?n)"])
    apply (rule exI [of _ "Div r3 (Trivial ?n)"])
    using two evs cts m1 m2 m3 by blast
qed

theorem fused_ciphertexts_decrypt_to_mean_witness:
  "fuseNFTs sample_chain (at 11 200) 2 (sample_at 4)
     = Inr (sample_requested,
            [DecryptionRequested 7
               [Div (Add (Add (Trivial 0) (Input 1 10)) (Input 4 20)) (Trivial 2),
                Div (Add (Add (Trivial 0) (Input 2 20)) (Input 5 40)) (Trivial 2),
                Div (Add (Add (Trivial 0) (Input 3 30)) (Input 6 61)) (Trivial 2)],
             FusionRequested 7 2 2684519297245983399889511477538238175]) \<and>
   unat (numNFTs (batches (sample_at 4) 2)) < 2 ^ 32 \<and>
   submitted (\<lambda>x. x) attr3 (batches (sample_at 4) 2) = [30, 61] \<and>
   mean_u32 [30, 61] = 45 \<and>
   unat (decrypt (\<lambda>x. x) (Div (Add (Add (Trivial 0) (Input 3 30)) (Input 6 61)) (Trivial 2)))
     = mean_u32 (submitted (\<lambda>x. x) attr3 (batches (sample_at 4) 2))"
proof -
  have f: "fuseNFTs sample_chain (at 11 200) 2 (sample_at 4)
     = Inr (sample_requested,
            [DecryptionRequested 7
               [Div (Add (Add (Trivial 0) (Input 1 10)) (Input 4 20)) (Trivial 2),
                Div (Add (Add (Trivial 0) (Input 2 20)) (Input 5 40)) (Trivial 2),
                Div (Add (Add (Trivial 0) (Input 3 30)) (Input 6 61)) (Trivial 2)],
             FusionRequested 7 2 2684519297245983399889511477538238175])"
    unfolding sample_at_def sample_defs by (simp add: eval_defs)
  have n: "numNFTs (batches (sample_at 4) 2) = 2"
    unfolding sample_at_def sample_defs by (simp add: eval_defs)
  then have small: "unat (numNFTs (batches (sample_at 4) 2)) < 2 ^ 32"
    by simp
  have d: "nftData (batches (sample_at 4) 2) 0
             = \<lparr>attr1 = Input 1 10, attr2 = Input 2 20, attr3 = Input 3 30, initialized = True\<rparr>"
    "nftData (batches (sample_at 4) 2) 1
             = \<lparr>attr1 = Input 4 20, attr2 = Input 5 40, attr3 = Input 6 61, initialized = True\<rparr>"
    unfolding sample_at_def sample_defs by (simp_all add: eval_defs)
  have "[0 ..< 2] = [0, Suc 0]"
    by (simp add: upt_rec)
  then have s: "submitted (\<lambda>x. x) attr3 (batches (sample_at 4) 2) = [30, 61]"
    by (simp add: submitted_def n d)
  have m: "mean_u32 [30, 61] = 45"
    by (simp add: mean_u32_def numeral_2_eq_2 [symmetric])
  from fused_ciphertexts_decrypt_to_mean
         [of "sample_at 4" "at 11 200" 2 sample_chain sample_requested
             "[DecryptionRequested 7
                 [Div (Add (Add (Trivial 0) (Input 1 10)) (Input 4 20)) (Trivial 2),
                  Div (Add (Add (Trivial 0) (Input 2 20)) (Input 5 40)) (Trivial 2),
                  Div (Add (Add (Trivial 0) (Input 3 30)) (Input 6 61)) (Trivial 2)],
               FusionRequested 7 2 2684519297245983399889511477538238175]"
             "\<lambda>x. x"] f small
  have "unat (decrypt (\<lambda>x. x) (Div (Add (Add (Trivial 0) (Input 3 30)) (Input 6 61)) (Trivial 2)))
     = mean_u32 (submitted (\<lambda>x. x) attr3 (batches (sample_at 4) 2))"
    by auto
  with f small s m show ?thesis by simp
qed

subsection \<open>Claim C4: too few entries\<close>

text \<open>
  Claim C4. \<^verbatim>\<open>fuseNFTs\<close> on a batch that holds 0 or 1 entries reverts, for every batch
  id, caller, time and storage; nothing has been written when it does (no decryption
  context, no request time), and no request reaches the oracle since the call does not
  return.
\<close>

theorem fuseNFTs_too_few_reverts:
  "unat (numNFTs (batches s b)) < 2 \<Longrightarrow> \<exists>err. fuseNFTs c e b s = Inl (err, s)"
proof -
  assume few: "unat (numNFTs (batches s b)) < 2"
  then have lt: "numNFTs (batches s b) < 2"
    by (simp add: word_less_nat_alt)
  show ?thesis
  proof (cases "modifiers [onlyProvider e s, whenNotPaused s, checkCooldown False e s]")
    case (Some err)
    then show ?thesis by (simp add: fuseNFTs_def)
  next
    case None
    then show ?thesis using lt by (simp add: fuseNFTs_def)
  qed
qed

theorem fuseNFTs_too_few_reverts_witness:
  "unat (numNFTs (batches (constructor (at 10 0)) 1)) < 2 \<and>
   (\<exists>err. fuseNFTs sample_chain (at 10 100) 1 (constructor (at 10 0))
            = Inl (err, constructor (at 10 0)))"
proof -
  have few: "unat (numNFTs (batches (constructor (at 10 0)) 1)) < 2"
    by (simp add: constructor_def default_Batch_def)
  from few fuseNFTs_too_few_reverts [OF few, of sample_chain "at 10 100"]
  show ?thesis by simp
qed

subsection \<open>Claim C5: the whole scenario\<close>

text \<open>
  Claim C5. The owner opens a batch, two providers each submit an initialized triple, a
  provider requests the fusion of that batch: the request carries the three averaged
  ciphertexts. When the oracle then calls back with a valid proof and with cleartexts
  that decode to the plaintexts of those ciphertexts, the batch being as it was, the
  callback returns and emits one \<open>FusionCompleted\<close> event, with the token id that
  follows \<open>lastTokenId\<close> and with the three averages as attributes; a second callback
  for the same request id, whatever its cleartexts and proof, reverts with
  \<open>ReplayAttempt\<close>.
\<close>

theorem fusion_scenario:
  assumes o: "openBatch e1 s0 = Inr (s1, ev1)"
    and a: "submitNFT e2 a1 a2 a3 s1 = Inr (s2, ev2)"
    and b: "submitNFT e3 b1 b2 b3 s2 = Inr (s3, ev3)"
    and f: "fuseNFTs c e4 (currentBatchId s1) s3 = Inr (s4, ev4)"
    and valid: "checkSignatures c (oracleRequestId e4) cleartexts prf"
    and d1: "abi_decode_uint256 cleartexts
               = Some (ucast (decrypt dz (Div (Add (Add (Trivial 0) a1) b1) (Trivial 2))))"
    and d2: "abi_decode_uint256 (drop 32 cleartexts)
               = Some (ucast (decrypt dz (Div (Add (Add (Trivial 0) a2) b2) (Trivial 2))))"
    and d3: "abi_decode_uint256 (drop 64 cleartexts)
               = Some (ucast (decrypt dz (Div (Add (Add (Trivial 0) a3) b3) (Trivial 2))))"
    and tok: "unat (lastTokenId s4) + 1 < 2 ^ 256"
  shows "ev4 = [DecryptionRequested (oracleRequestId e4)
                  [Div (Add (Add (Trivial 0) a1) b1) (Trivial 2),
                   Div (Add (Add (Trivial 0) a2) b2) (Trivial 2),
                   Div (Add (Add (Trivial 0) a3) b3) (Trivial 2)],
               FusionRequested (oracleRequestId e4) (currentBatchId s1)
                  (hashCiphertexts c
                     [Div (Add (Add (Trivial 0) a1) b1) (Trivial 2),
                      Div (Add (Add (Trivial 0) a2) b2) (Trivial 2),
                      Div (Add (Add (Trivial 0) a3) b3) (Trivial 2)])] \<and>
         (\<exists>s5. myCallback c e5 (oracleRequestId e4) cleartexts prf s4
                 = Inr (s5, [FusionCompleted (oracleRequestId e4) (currentBatchId s1)
                              (lastTokenId s4 + 1)
                              [ucast ((decrypt dz a1 + decrypt dz b1) div 2),
                               ucast ((decrypt dz a2 + decrypt dz b2) div 2),
                               ucast ((decrypt dz a3 + decrypt dz b3) div 2)]]) \<and>
               unat (lastTokenId s5) = unat (lastTokenId s4) + 1 \<and>
               myCallback c e6 (oracleRequestId e4) cleartexts' prf' s5
                 = Inl (ReplayAttempt, s5))"
proof -
  let ?b = "currentBatchId s1"
  let ?r = "oracleRequestId e4"
  let ?cts = "[Div (Add (Add (Trivial 0) a1) b1) (Trivial 2),
               Div (Add (Add (Trivial 0) a2) b2) (Trivial 2),
               Div (Add (Add (Trivial 0) a3) b3) (Trivial 2)]"
  note sub = two_submissions [OF o a b]
  have avg3: "averagedCiphertexts (nftData (batches s3 ?b)) (numNFTs (batches s3 ?b)) = Inr ?cts"
    using sub by (simp add: averagedCiphertexts_two)
  from fuseNFTs_Inr [OF f] avg3
  have ev4: "ev4 = [DecryptionRequested ?r ?cts, FusionRequested ?r ?b (hashCiphertexts c ?cts)]"
    and s4: "s4 = s3\<lparr>decryptionContexts := (decryptionContexts s3)(?r :=
                 \<lparr>batchId = ?b, stateHash = hashCiphertexts c ?cts, processed = False\<rparr>),
              lastRequestTime := (lastRequestTime s3)(sender e4 := timestamp e4)\<rparr>"
    by auto
  have ctx: "decryptionContexts s4 ?r
               = \<lparr>batchId = ?b, stateHash = hashCiphertexts c ?cts, processed = False\<rparr>"
    and bt: "batches s4 = batches s3"
    by (simp_all add: s4)
  have avg4: "averagedCiphertexts (nftData (batches s4 ?b)) (numNFTs (batches s4 ?b)) = Inr ?cts"
    using avg3 by (simp add: bt)
  have two: "(ucast (2 :: uint256) :: 32 word) \<noteq> 0"
    by simp
  have inc: "incr (lastTokenId s4) = Some (lastTokenId s4 + 1)"
    using tok by (simp add: incr_Some)
  let ?s5 = "s4\<lparr>lastTokenId := lastTokenId s4 + 1,
                 decryptionContexts := (decryptionContexts s4)(?r :=
                    (decryptionContexts s4 ?r)\<lparr>processed := True\<rparr>)\<rparr>"
  have cb: "myCallback c e5 ?r cleartexts prf s4
              = Inr (?s5, [FusionCompleted ?r ?b (lastTokenId s4 + 1)
                              [ucast ((decrypt dz a1 + decrypt dz b1) div 2),
                               ucast ((decrypt dz a2 + decrypt dz b2) div 2),
                               ucast ((decrypt dz a3 + decrypt dz b3) div 2)]])"
    using valid two
    by (simp add: myCallback_def Let_def ctx avg4 d1 d2 d3 inc)
  have tk: "unat (lastTokenId ?s5) = unat (lastTokenId s4) + 1"
    using incr_unat [OF inc] by simp
  have rp: "myCallback c e6 ?r cleartexts' prf' ?s5 = Inl (ReplayAttempt, ?s5)"
    by (simp add: myCallback_def)
  from ev4 cb tk rp show ?thesis by blast
qed

theorem fusion_scenario_witness:
  "openBatch (at 10 2) (sample_at 1) = Inr (sample_at 2, [BatchOpened 2]) \<and>
   submitNFT (at 10 100) (Input 1 10) (Input 2 20) (Input 3 30) (sample_at 2)
     = Inr (sample_at 3, [NFTSubmitted 10 0 2]) \<and>
   submitNFT (at 11 100) (Input 4 20) (Input 5 40) (Input 6 61) (sample_at 3)
     = Inr (sample_at 4, [NFTSubmitted 11 1 2]) \<and>
   fuseNFTs sample_chain (at 11 200) 2 (sample_at 4)
     = Inr (sample_requested,
            [DecryptionRequested 7
               [Div (Add (Add (Trivial 0) (Input 1 10)) (Input 4 20)) (Trivial 2),
                Div (Add (Add (Trivial 0) (Input 2 20)) (Input 5 40)) (Trivial 2),
                Div (Add (Add (Trivial 0) (Input 3 30)) (Input 6 61)) (Trivial 2)],
             FusionRequested 7 2 2684519297245983399889511477538238175]) \<and>
   checkSignatures sample_chain 7 sample_cleartexts [1] \<and>
   lastTokenId sample_requested = 0 \<and>
   myCallback sample_chain (at 12 300) 7 sample_cleartexts [1] sample_requested
     = Inr (sample_fulfilled, [FusionCompleted 7 2 1 [15, 30, 45]]) \<and>
   myCallback sample_chain (at 12 301) 7 sample_cleartexts [0] sample_fulfilled
     = Inl (ReplayAttempt, sample_fulfilled)"
proof -
  have o: "openBatch (at 10 2) (sample_at 1) = Inr (sample_at 2, [BatchOpened 2])"
    unfolding sample_at_def sample_defs by (simp add: eval_defs)
  have c: "currentBatchId (sample_at 2) = 2"
    unfolding sample_at_def sample_defs by (simp add: eval_defs)
  have a: "submitNFT (at 10 100) (Input 1 10) (Input 2 20) (Input 3 30) (sample_at 2)
     = Inr (sample_at 3, [NFTSubmitted 10 0 2])"
    unfolding sample_at_def sample_defs by (simp add: eval_defs)
  have b: "submitNFT (at 11 100) (Input 4 20) (Input 5 40) (Input 6 61) (sample_at 3)
     = Inr (sample_at 4, [NFTSubmitted 11 1 2])"
    unfolding sample_at_def sample_defs by (simp add: eval_defs)
  have f: "fuseNFTs sample_chain (at 11 200) 2 (sample_at 4)
     = Inr (sample_requested,
            [DecryptionRequested 7
               [Div (Add (Add (Trivial 0) (Input 1 10)) (Input 4 20)) (Trivial 2),
                Div (Add (Add (Trivial 0) (Input 2 20)) (Input 5 40)) (Trivial 2),
                Div (Add (Add (Trivial 0) (Input 3 30)) (Input 6 61)) (Trivial 2)],
             FusionRequested 7 2 2684519297245983399889511477538238175])"
    unfolding sample_at_def sample_defs by (simp add: eval_defs)
  have v: "checkSignatures sample_chain (oracleRequestId (at 11 200)) sample_cleartexts [1]"
    by (simp add: sample_chain_def)
  have d1: "abi_decode_uint256 sample_cleartexts
      = Some (ucast (decrypt (\<lambda>x. x)
          (Div (Add (Add (Trivial 0) (Input 1 10)) (Input 4 20)) (Trivial 2))))"
    by (simp add: sample_decode)
  have d2: "abi_decode_uint256 (drop 32 sample_cleartexts)
      = Some (ucast (decrypt (\<lambda>x. x)
          (Div (Add (Add (Trivial 0) (Input 2 20)) (Input 5 40)) (Trivial 2))))"
    by (simp add: sample_decode)
  have d3: "abi_decode_uint256 (drop 64 sample_cleartexts)
      = Some (ucast (decrypt (\<lambda>x. x)
          (Div (Add (Add (Trivial 0) (Input 3 30)) (Input 6 61)) (Trivial 2))))"
    by (simp add: sample_decode)
  have t: "lastTokenId sample_requested = 0"
    unfolding sample_at_def sample_defs by (simp add: eval_defs)
  have tok: "unat (lastTokenId sample_requested) + 1 < 2 ^ 256"
    by (simp add: t)
  have m: "myCallback sample_chain (at 12 300) 7 sample_cleartexts [1] sample_requested
     = Inr (sample_fulfilled, [FusionCompleted 7 2 1 [15, 30, 45]])"
    unfolding sample_at_def sample_defs by (simp add: eval_defs)
  from fusion_scenario [OF o a b f [folded c] v d1 d2 d3 tok,
      of "at 12 300" "at 12 301" sample_cleartexts "[0]"] m
  have "myCallback sample_chain (at 12 301) 7 sample_cleartexts [0] sample_fulfilled
     = Inl (ReplayAttempt, sample_fulfilled)"
    by (auto simp: at_def)
  with o a b f v t m show ?thesis by (simp add: at_def)
qed

subsection \<open>Claim C6: owner-gated, append-only batches\<close>

text \<open>
  Claim C6. \<^verbatim>\<open>openBatch\<close> and \<^verbatim>\<open>closeBatch\<close> revert with \<open>NotOwner\<close> for every caller
  but the owner, and a call that changes the open flag of any batch is one of the two,
  made by the owner. From a reachable storage on, through every sequence of calls, the
  entry count of every batch never decreases and the owner and the attribute data at
  every index below the count stay what they were. A submission that returns was made
  into an open current batch, has written at the index that was the count, and has
  raised the count by one. A submission reverts when the current batch is not open.
\<close>

theorem batches_owner_gated_append_only:
  "(sender e \<noteq> owner s \<longrightarrow>
      openBatch e s = Inl (NotOwner, s) \<and> closeBatch e s = Inl (NotOwner, s)) \<and>
   (exec c e x s = Inr (s', evs) \<and> isOpen (batches s' b) \<noteq> isOpen (batches s b) \<longrightarrow>
      (x = OpenBatch \<or> x = CloseBatch) \<and> sender e = owner s) \<and>
   (reachable c s \<longrightarrow>
      numNFTs (batches s b) \<le> numNFTs (batches (run c tr s) b) \<and>
      (\<forall>i. i < numNFTs (batches s b) \<longrightarrow>
         nftOwners (batches (run c tr s) b) i = nftOwners (batches s b) i \<and>
         nftData (batches (run c tr s) b) i = nftData (batches s b) i)) \<and>
   (submitNFT e a1 a2 a3 s = Inr (s2, evs2) \<longrightarrow>
      isOpen (batches s (currentBatchId s)) \<and>
      nftOwners (batches s2 (currentBatchId s)) (numNFTs (batches s (currentBatchId s))) = sender e \<and>
      nftData (batches s2 (currentBatchId s)) (numNFTs (batches s (currentBatchId s)))
        = \<lparr>attr1 = a1, attr2 = a2, attr3 = a3, initialized = True\<rparr> \<and>
      numNFTs (batches s2 (currentBatchId s)) = numNFTs (batches s (currentBatchId s)) + 1 \<and>
      numNFTs (batches s (currentBatchId s)) < numNFTs (batches s2 (currentBatchId s))) \<and>
   (\<not> isOpen (batches s (currentBatchId s)) \<longrightarrow>
      (\<exists>err. submitNFT e a1 a2 a3 s = Inl (err, s)))"
proof (intro conjI impI)
  assume "sender e \<noteq> owner s"
  then show "openBatch e s = Inl (NotOwner, s)" "closeBatch e s = Inl (NotOwner, s)"
    by (simp_all add: openBatch_def closeBatch_def onlyOwner_def)
next
  assume a: "exec c e x s = Inr (s', evs) \<and> isOpen (batches s' b) \<noteq> isOpen (batches s b)"
  then show "x = OpenBatch \<or> x = CloseBatch" "sender e = owner s"
    using exec_isOpen [of c e x s s' evs b] by simp_all
next
  assume r: "reachable c s"
  from run_append_only [OF r, of b tr]
  show "numNFTs (batches s b) \<le> numNFTs (batches (run c tr s) b)"
    "\<forall>i. i < numNFTs (batches s b) \<longrightarrow>
         nftOwners (batches (run c tr s) b) i = nftOwners (batches s b) i \<and>
         nftData (batches (run c tr s) b) i = nftData (batches s b) i"
    by simp_all
next
  assume sb: "submitNFT e a1 a2 a3 s = Inr (s2, evs2)"
  note f = submitNFT_Inr [OF sb]
  from f show "isOpen (batches s (currentBatchId s))" by simp
  from f show "nftOwners (batches s2 (currentBatchId s)) (numNFTs (batches s (currentBatchId s))) = sender e"
    by simp
  from f show "nftData (batches s2 (currentBatchId s)) (numNFTs (batches s (currentBatchId s)))
        = \<lparr>attr1 = a1, attr2 = a2, attr3 = a3, initialized = True\<rparr>"
    by simp
  from f show n: "numNFTs (batches s2 (currentBatchId s)) = numNFTs (batches s (currentBatchId s)) + 1"
    by simp
  from f have "incr (numNFTs (batches s (currentBatchId s)))
       = Some (numNFTs (batches s (currentBatchId s)) + 1)" by simp
  then show "numNFTs (batches s (currentBatchId s)) < numNFTs (batches s2 (currentBatchId s))"
    unfolding n by (rule incr_less)
next
  assume closed: "\<not> isOpen (batches s (currentBatchId s))"
  show "\<exists>err. submitNFT e a1 a2 a3 s = Inl (err, s)"
  proof (cases "modifiers [onlyProvider e s, whenNotPaused s, checkCooldown True e s]")
    case None
    with closed show ?thesis by (simp add: submitNFT_def)
  next
    case (Some err)
    then show ?thesis by (simp add: submitNFT_def)
  qed
qed

theorem batches_owner_gated_append_only_witness:
  "sender (at 11 700) \<noteq> owner sample_fulfilled \<and>
   openBatch (at 11 700) sample_fulfilled = Inl (NotOwner, sample_fulfilled) \<and>
   closeBatch (at 11 700) sample_fulfilled = Inl (NotOwner, sample_fulfilled) \<and>
   exec sample_chain (at 10 2) OpenBatch (sample_at 1) = Inr (sample_at 2, [BatchOpened 2]) \<and>
   isOpen (batches (sample_at 2) 2) \<noteq> isOpen (batches (sample_at 1) 2) \<and>
   sender (at 10 2) = owner (sample_at 1) \<and>
   reachable sample_chain sample_requested \<and>
   numNFTs (batches sample_requested 2)
     \<le> numNFTs (batches (run sample_chain sample_later sample_requested) 2) \<and>
   1 < numNFTs (batches sample_requested 2) \<and>
   nftOwners (batches (run sample_chain sample_later sample_requested) 2) 1
     = nftOwners (batches sample_requested 2) 1 \<and>
   nftData (batches (run sample_chain sample_later sample_requested) 2) 1
     = nftData (batches sample_requested 2) 1 \<and>
   submitNFT (at 10 400) (Input 7 1) (Input 8 1) (Input 9 1) sample_fulfilled
     = Inr (sample_mutated, [NFTSubmitted 10 2 2]) \<and>
   numNFTs (batches sample_mutated 2) = numNFTs (batches sample_fulfilled 2) + 1 \<and>
   \<not> isOpen (batches (sample_at 1) (currentBatchId (sample_at 1))) \<and>
   (\<exists>err. submitNFT (at 10 100) (Input 1 10) (Input 2 20) (Input 3 30) (sample_at 1)
            = Inl (err, sample_at 1))"
proof -
  have no: "sender (at 11 700) \<noteq> owner sample_fulfilled"
    unfolding sample_at_def sample_mutated_def sample_defs by (simp add: eval_defs)
  have ob: "exec sample_chain (at 10 2) OpenBatch (sample_at 1) = Inr (sample_at 2, [BatchOpened 2])"
    unfolding sample_at_def sample_mutated_def sample_defs by (simp add: eval_defs)
  have fl: "isOpen (batches (sample_at 2) 2) \<noteq> isOpen (batches (sample_at 1) 2)"
    unfolding sample_at_def sample_mutated_def sample_defs by (simp add: eval_defs)
  have two: "numNFTs (batches sample_requested 2) = 2" and c: "currentBatchId sample_fulfilled = 2"
    unfolding sample_at_def sample_mutated_def sample_defs by (simp_all add: eval_defs)
  then have one: "1 < numNFTs (batches sample_requested 2)"
    by simp
  have sb: "submitNFT (at 10 400) (Input 7 1) (Input 8 1) (Input 9 1) sample_fulfilled
     = Inr (sample_mutated, [NFTSubmitted 10 2 2])"
    unfolding sample_at_def sample_mutated_def sample_defs by (simp add: eval_defs)
  have cl: "\<not> isOpen (batches (sample_at 1) (currentBatchId (sample_at 1)))"
    unfolding sample_at_def sample_mutated_def sample_defs by (simp add: eval_defs)
  from batches_owner_gated_append_only
         [of "at 11 700" sample_fulfilled sample_chain OpenBatch _ _ 2 _
             "Input 7 1" "Input 8 1" "Input 9 1"] no
  have p1: "openBatch (at 11 700) sample_fulfilled = Inl (NotOwner, sample_fulfilled)"
       "closeBatch (at 11 700) sample_fulfilled = Inl (NotOwner, sample_fulfilled)"
    by simp_all
  from batches_owner_gated_append_only
         [of "at 10 2" "sample_at 1" sample_chain OpenBatch "sample_at 2" "[BatchOpened 2]" 2 "[]"
             "Input 1 10" "Input 2 20" "Input 3 30"] ob fl cl
  have p2: "sender (at 10 2) = owner (sample_at 1)"
    by simp
  from batches_owner_gated_append_only
         [of "at 10 100" "sample_at 1" sample_chain OpenBatch _ _ 2 "[]"
             "Input 1 10" "Input 2 20" "Input 3 30"] cl
  have p5: "\<exists>err. submitNFT (at 10 100) (Input 1 10) (Input 2 20) (Input 3 30) (sample_at 1)
            = Inl (err, sample_at 1)"
    by simp
  from batches_owner_gated_append_only
         [of "at 10 400" sample_requested sample_chain OpenBatch _ _ 2 sample_later
             "Input 7 1" "Input 8 1" "Input 9 1"] sample_requested_reachable one
  have p3: "numNFTs (batches sample_requested 2)
          \<le> numNFTs (batches (run sample_chain sample_later sample_requested) 2)"
       "nftOwners (batches (run sample_chain sample_later sample_requested) 2) 1
          = nftOwners (batches sample_requested 2) 1"
       "nftData (batches (run sample_chain sample_later sample_requested) 2) 1
          = nftData (batches sample_requested 2) 1"
    by simp_all
  from batches_owner_gated_append_only
         [of "at 10 400" sample_fulfilled sample_chain OpenBatch _ _ 2 "[]"
             "Input 7 1" "Input 8 1" "Input 9 1" sample_mutated "[NFTSubmitted 10 2 2]"] sb c
  have p4: "numNFTs (batches sample_mutated 2) = numNFTs (batches sample_fulfilled 2) + 1"
    by simp
  from no p1 ob fl p2 sample_requested_reachable p3 one sb p4 cl p5 show ?thesis
    by simp
qed

subsection \<open>Claim C7: reverts write nothing\<close>

text \<open>
  Claim C7. When an external function reverts with one of the errors the specification
  names, it has written nothing by then: the storage at the revert is the storage before
  the call, in all its fields. The ledger hands back that storage and the error.
\<close>

theorem named_revert_writes_nothing:
  "exec c e x s = Inl (err, s0) \<Longrightarrow> named_error err \<Longrightarrow>
     s0 = s \<and> transact c e x s = (s, Inl err)"
  using revert_before_any_write [of c e x s err s0]
  by (auto simp: named_error_def transact_def)

theorem named_revert_writes_nothing_witness:
  "exec sample_chain (at 11 300) (MyCallback 7 sample_cleartexts [1]) sample_fulfilled
     = Inl (ReplayAttempt, sample_fulfilled) \<and>
   named_error ReplayAttempt \<and>
   transact sample_chain (at 11 300) (MyCallback 7 sample_cleartexts [1]) sample_fulfilled
     = (sample_fulfilled, Inl ReplayAttempt)"
proof -
  have p: "processed (decryptionContexts sample_fulfilled 7)"
    unfolding sample_defs
    by (simp add: eval_defs)
  then have x: "exec sample_chain (at 11 300) (MyCallback 7 sample_cleartexts [1]) sample_fulfilled
     = Inl (ReplayAttempt, sample_fulfilled)"
    by (simp add: myCallback_def)
  have n: "named_error ReplayAttempt" by (simp add: named_error_def)
  from named_revert_writes_nothing [OF x n] x n show ?thesis by simp
qed

subsection \<open>Claim C9: a request id never recorded\<close>




subsection \<open>Claim C10: earlier batches\<close>

text \<open>
  Claim C10. \<^verbatim>\<open>openBatch\<close> raises the current batch id and leaves the batch that was
  current as it was, open flag included. A batch whose id is below the current one is
  the same after every sequence of calls: its count, its owners, its attribute data and
  its flag.
\<close>

theorem earlier_batches_frozen:
  "(openBatch e s = Inr (s1, evs) \<longrightarrow>
      currentBatchId s < currentBatchId s1 \<and>
      batches s1 (currentBatchId s) = batches s (currentBatchId s)) \<and>
   (b < currentBatchId s \<longrightarrow> batches (run c tr s) b = batches s b)"
proof (intro conjI impI)
  assume ob: "openBatch e s = Inr (s1, evs)"
  from openBatch_Inr [OF ob] have "incr (currentBatchId s) = Some (currentBatchId s + 1)"
    and s1: "s1 = s\<lparr>currentBatchId := currentBatchId s + 1,
            batches := (batches s)(currentBatchId s + 1 :=
               (batches s (currentBatchId s + 1))\<lparr>isOpen := True, numNFTs := 0\<rparr>)\<rparr>"
    by simp_all
  then have lt: "currentBatchId s < currentBatchId s + 1"
    by (simp add: incr_less)
  then show "currentBatchId s < currentBatchId s1" by (simp add: s1)
  from lt have "currentBatchId s + 1 \<noteq> currentBatchId s" by simp
  then show "batches s1 (currentBatchId s) = batches s (currentBatchId s)"
    by (simp add: s1)
next
  assume "b < currentBatchId s"
  then show "batches (run c tr s) b = batches s b"
    by (simp add: run_old_batches)
qed

theorem earlier_batches_frozen_witness:
  "openBatch (at 10 700) sample_fulfilled
     = Inr (fst (transact sample_chain (at 10 700) OpenBatch sample_fulfilled), [BatchOpened 3]) \<and>
   currentBatchId sample_fulfilled
     < currentBatchId (fst (transact sample_chain (at 10 700) OpenBatch sample_fulfilled)) \<and>
   batches (fst (transact sample_chain (at 10 700) OpenBatch sample_fulfilled)) 2
     = batches sample_fulfilled 2 \<and>
   isOpen (batches sample_fulfilled 2) \<and>
   (1 :: uint256) < currentBatchId sample_fulfilled \<and>
   batches (run sample_chain sample_later sample_fulfilled) 1 = batches sample_fulfilled 1"
proof -
  have o: "openBatch (at 10 700) sample_fulfilled
     = Inr (fst (transact sample_chain (at 10 700) OpenBatch sample_fulfilled), [BatchOpened 3])"
    unfolding sample_defs by (simp add: eval_defs)
  have c: "currentBatchId sample_fulfilled = 2"
    unfolding sample_defs by (simp add: eval_defs)
  have i: "isOpen (batches sample_fulfilled 2)"
    unfolding sample_defs by (simp add: eval_defs)
  have l: "(1 :: uint256) < currentBatchId sample_fulfilled"
    by (simp add: c)
  from earlier_batches_frozen
         [of "at 10 700" sample_fulfilled
             "fst (transact sample_chain (at 10 700) OpenBatch sample_fulfilled)"
             "[BatchOpened 3]" 1 sample_chain sample_later]
       o c i l
  show ?thesis by simp
qed

section \<open>Properties of the client\<close>

subsection \<open>Base64\<close>

lemma base64_index_char: "n < 64 \<Longrightarrow> base64_index (base64_char n) = Some n"
  by (auto simp: base64_index_def base64_char_def Let_def)

lemma base64_char_not_pad: "n < 64 \<Longrightarrow> base64_char n \<noteq> CHR ''=''"
  using base64_index_char [of n] by (auto simp: base64_index_def Let_def)

lemma base64_char_not_space: "n < 64 \<Longrightarrow> \<not> is_ascii_whitespace (base64_char n)"
  using base64_index_char [of n]
  by (auto simp: base64_index_def is_ascii_whitespace_def Let_def split: if_splits)

lemma sextets_bound:
  "\<forall>a \<in> set xs. a < 256 \<Longrightarrow> \<forall>x \<in> set (sextets xs). x < 64"
proof (induction xs rule: sextets.induct)
  case (2 a)
  then have "a < 256" by simp
  then show ?case by auto
next
  case (3 a b)
  then have "a < 256" "b < 256" by simp_all
  then show ?case by auto
next
  case (4 a b c r)
  then have "a < 256" "b < 256" "c < 256" by simp_all
  moreover from 4 have "\<forall>x \<in> set (sextets r). x < 64" by simp
  ultimately show ?case by auto
qed simp

lemma octets_sextets:
  "\<forall>a \<in> set xs. a < 256 \<Longrightarrow> octets (sextets xs) = xs"
proof (induction xs rule: sextets.induct)
  case (2 a)
  then show ?case by simp
next
  case (3 a b)
  then have "b < 256" by simp
  then show ?case by simp
next
  case (4 a b c r)
  then have "b < 256" "c < 256" by simp_all
  moreover from 4 have "octets (sextets r) = r" by simp
  ultimately show ?case by simp
qed simp

lemma length_sextets:
  "length (sextets xs) mod 4 \<noteq> 1 \<and>
   (length (sextets xs) + (3 - length xs mod 3) mod 3) mod 4 = 0"
proof (induction xs rule: sextets.induct)
  case (4 a b c r)
  define L where "L = length (sextets r)"
  define p where "p = (3 - length r mod 3) mod 3"
  from 4 have ih: "L mod 4 \<noteq> 1 \<and> (L + p) mod 4 = 0"
    by (simp add: L_def p_def)
  have e: "length (a # b # c # r) = length r + 3"
    by simp
  have m: "(3 - length (a # b # c # r) mod 3) mod 3 = p"
    unfolding e p_def by simp
  have l: "length (sextets (a # b # c # r)) = L + 4"
    by (simp add: L_def)
  from ih have "(L + 4) mod 4 \<noteq> 1 \<and> (L + 4 + p) mod 4 = 0"
    by presburger
  then show ?case
    unfolding l m .
qed simp_all

lemma those_list_Some: "those_list (map Some xs) = Some xs"
  by (induction xs) simp_all

lemma remove_padding_encoded:
  assumes nopad: "CHR ''='' \<notin> set e" and p: "p \<le> 2"
    and len: "(length e + p) mod 4 = 0"
  shows "remove_padding (e @ replicate p CHR ''='') = e"
proof -
  have cases: "p = 0 \<or> p = 1 \<or> p = 2" using p by arith
  have no1: "\<not> (1 \<le> length e \<and> drop (length e - 1) e = ''='')"
  proof
    assume a: "1 \<le> length e \<and> drop (length e - 1) e = ''=''"
    have "set (drop (length e - 1) e) \<subseteq> set e" by (rule set_drop_subset)
    with a nopad show False by simp
  qed
  have no2: "\<not> (2 \<le> length e \<and> drop (length e - 2) e = ''=='')"
  proof
    assume a: "2 \<le> length e \<and> drop (length e - 2) e = ''==''"
    have "set (drop (length e - 2) e) \<subseteq> set e" by (rule set_drop_subset)
    with a nopad show False by simp
  qed
  from cases show ?thesis
  proof (elim disjE)
    assume "p = 0"
    with no1 no2 show ?thesis by (auto simp: remove_padding_def)
  next
    assume p1: "p = 1"
    have "\<not> (drop (length e - 1) (e @ ''='') = ''=='')"
    proof
      assume a: "drop (length e - 1) (e @ ''='') = ''==''"
      then have "length e \<noteq> 0"
        by auto
      with a have "drop (length e - 1) e = ''=''"
        by (simp add: Suc_diff_le)
      with no1 \<open>length e \<noteq> 0\<close> show False by simp
    qed
    with p1 len show ?thesis
      by (simp add: remove_padding_def)
  next
    assume "p = 2"
    with len show ?thesis
      by (simp add: remove_padding_def numeral_2_eq_2)
  qed
qed

lemma atob_btoa: "atob (btoa s) = Inr s"
proof -
  let ?xs = "map of_char s :: nat list"
  let ?e = "map base64_char (sextets ?xs)"
  let ?p = "(3 - length s mod 3) mod 3"
  have small: "\<forall>a \<in> set ?xs. a < 256"
    by auto
  then have six: "\<forall>x \<in> set (sextets ?xs). x < 64"
    by (rule sextets_bound)
  have "\<not> is_ascii_whitespace (CHR ''='')"
    by (simp add: is_ascii_whitespace_def)
  then have nospace: "filter (\<lambda>c. \<not> is_ascii_whitespace c) (btoa s) = btoa s"
    using six by (auto simp: btoa_def filter_id_conv base64_char_not_space)
  have nopad: "CHR ''='' \<notin> set ?e"
    using six base64_char_not_pad by force
  have len: "length (sextets ?xs) mod 4 \<noteq> 1"
    "(length ?e + ?p) mod 4 = 0"
    using length_sextets [of ?xs] by simp_all
  have rp: "remove_padding (btoa s) = ?e"
    unfolding btoa_def using nopad _ len(2) by (rule remove_padding_encoded) simp
  have idx: "map base64_index ?e = map Some (sextets ?xs)"
    using six by (simp add: base64_index_char)
  have dec: "map char_of (octets (sextets ?xs)) = s"
    by (simp add: octets_sextets [OF small] comp_def)
  show ?thesis
    unfolding atob_def nospace rp Let_def idx those_list_Some
    using len(1) by (simp add: dec)
qed

subsection \<open>Splitting and reading numbers\<close>

lemma split_comma_single: "CHR '','' \<notin> set p \<Longrightarrow> split_comma p = [p]"
  by (induction p) auto

lemma split_comma_append:
  "CHR '','' \<notin> set p \<Longrightarrow> split_comma (p @ CHR '','' # r) = p # split_comma r"
  by (induction p) auto

lemma decimal_digits_digits: "list_all is_digit (decimal_digits n)"
proof (induction n rule: decimal_digits.induct)
  case (1 n)
  show ?case
  proof (cases "n < 10")
    case True
    then show ?thesis
      by (simp add: decimal_digits.simps [of n] is_digit_def)
  next
    case False
    have "n mod 10 < 10" by simp
    then have "is_digit (char_of (48 + n mod 10))"
      by (simp add: is_digit_def)
    with False "1.IH" show ?thesis
      by (simp add: decimal_digits.simps [of n])
  qed
qed

lemma decimal_digits_nonempty: "decimal_digits n \<noteq> []"
  by (simp add: decimal_digits.simps [of n])

lemma digits_value_snoc: "digits_value (s @ [c]) = digits_value s * 10 + (of_char c - 48)"
  by (simp add: digits_value_def)

lemma digits_value_decimal: "digits_value (decimal_digits n) = n"
proof (induction n rule: decimal_digits.induct)
  case (1 n)
  show ?case
  proof (cases "n < 10")
    case True
    then show ?thesis
      by (simp add: decimal_digits.simps [of n] digits_value_def)
  next
    case False
    have "n mod 10 < 10" by simp
    then have "(of_char (char_of (48 + n mod 10) :: char) :: nat) - 48 = n mod 10"
      by simp
    with False "1.IH" show ?thesis
      by (simp add: decimal_digits.simps [of n] digits_value_snoc)
  qed
qed

lemma unsigned_decimal_digits: "unsigned_decimal (decimal_digits n) = Some n"
  by (simp add: unsigned_decimal_def decimal_digits_nonempty decimal_digits_digits
      digits_value_decimal)

lemma digit_not_space: "is_digit c \<Longrightarrow> \<not> is_js_whitespace c"
  by (auto simp: is_digit_def is_js_whitespace_def)

lemma digit_not_comma: "is_digit c \<Longrightarrow> c \<noteq> CHR '',''"
  by (auto simp: is_digit_def)

lemma digit_not_sign: "is_digit c \<Longrightarrow> c \<noteq> CHR ''-'' \<and> c \<noteq> CHR ''+''"
  by (auto simp: is_digit_def)

lemma trim_id:
  assumes "s \<noteq> []" "\<not> is_js_whitespace (hd s)" "\<not> is_js_whitespace (last s)"
  shows "trim s = s"
proof -
  from assms(1,2) have a: "dropWhile is_js_whitespace s = s"
    by (cases s) simp_all
  from assms(1,3) have "dropWhile is_js_whitespace (rev s) = rev s"
    by (cases "rev s") (simp_all add: hd_rev)
  with a show ?thesis by (simp add: trim_def)
qed

lemma hd_decimal_digit: "is_digit (hd (decimal_digits n))"
  using decimal_digits_digits [of n] decimal_digits_nonempty [of n]
  by (cases "decimal_digits n") simp_all

lemma last_decimal_digit: "is_digit (last (decimal_digits n))"
  using decimal_digits_digits [of n] decimal_digits_nonempty [of n]
  by (simp add: list_all_iff)

lemma Number_number_to_string: "Number (number_to_string n) = Integer n"
proof (cases "n < 0")
  case True
  let ?d = "decimal_digits (nat (- n))"
  have s: "number_to_string n = CHR ''-'' # ?d"
    using True by (simp add: number_to_string_def)
  have "\<not> is_js_whitespace CHR ''-''"
    by (simp add: is_js_whitespace_def)
  moreover have "\<not> is_js_whitespace (last (CHR ''-'' # ?d))"
    using last_decimal_digit [of "nat (- n)"] decimal_digits_nonempty [of "nat (- n)"]
    by (simp add: digit_not_space)
  ultimately have "trim (CHR ''-'' # ?d) = CHR ''-'' # ?d"
    by (intro trim_id) simp_all
  then show ?thesis
    using True by (simp add: Number_def s unsigned_decimal_digits)
next
  case False
  let ?d = "decimal_digits (nat n)"
  have s: "number_to_string n = ?d"
    using False by (simp add: number_to_string_def)
  obtain c r where d: "?d = c # r"
    using decimal_digits_nonempty [of "nat n"] by (cases ?d) auto
  have c: "is_digit c"
    using hd_decimal_digit [of "nat n"] by (simp add: d)
  have "trim ?d = ?d"
    using hd_decimal_digit [of "nat n"] last_decimal_digit [of "nat n"]
    by (intro trim_id) (simp_all add: decimal_digits_nonempty digit_not_space)
  then have "trim ?d = c # r" by (simp add: d)
  moreover have "unsigned_decimal (c # r) = Some (nat n)"
    using unsigned_decimal_digits [of "nat n"] by (simp add: d)
  ultimately show ?thesis
    using False digit_not_sign [OF c] by (simp add: Number_def s)
qed

lemma number_to_string_no_comma: "CHR '','' \<notin> set (number_to_string n)"
proof -
  have "CHR '','' \<notin> set (decimal_digits m)" for m
    using decimal_digits_digits [of m] digit_not_comma
    by (auto simp: list_all_iff)
  then show ?thesis by (simp add: number_to_string_def)
qed

subsection \<open>Claim C8: the round trip\<close>

text \<open>
  Claim C8. For every attribute record with integer fields, decoding its encoding
  returns the four integers; the encoding starts with the tag \<^verbatim>\<open>FHE-\<close>. On every
  string that does not start with the tag the decoding returns the four zeros.
\<close>

theorem client_round_trip:
  "FHEDecryptAttributes (FHEEncryptAttributes a)
     = Inr \<lparr>attack = Integer (attack a), defense = Integer (defense a),
            speed = Integer (speed a), rarity = Integer (rarity a)\<rparr> \<and>
   take 4 (FHEEncryptAttributes a) = ''FHE-'' \<and>
   (take 4 s \<noteq> ''FHE-'' \<longrightarrow>
      FHEDecryptAttributes s
        = Inr \<lparr>attack = Integer 0, defense = Integer 0, speed = Integer 0, rarity = Integer 0\<rparr>)"
proof (intro conjI impI)
  let ?data = "number_to_string (attack a) @ CHR '','' # number_to_string (defense a) @
               CHR '','' # number_to_string (speed a) @ CHR '','' # number_to_string (rarity a)"
  have enc: "FHEEncryptAttributes a = ''FHE-'' @ btoa ?data"
    by (simp add: FHEEncryptAttributes_def)
  show tag: "take 4 (FHEEncryptAttributes a) = ''FHE-''"
    by (simp add: enc)
  have payload: "drop 4 (FHEEncryptAttributes a) = btoa ?data"
    by (simp add: enc)
  have parts: "split_comma ?data
     = [number_to_string (attack a), number_to_string (defense a),
        number_to_string (speed a), number_to_string (rarity a)]"
    by (simp add: split_comma_append split_comma_single number_to_string_no_comma)
  show "FHEDecryptAttributes (FHEEncryptAttributes a)
     = Inr \<lparr>attack = Integer (attack a), defense = Integer (defense a),
            speed = Integer (speed a), rarity = Integer (rarity a)\<rparr>"
    unfolding FHEDecryptAttributes_def tag payload atob_btoa
    by (simp add: parts Number_number_to_string element_def Let_def)
next
  assume "take 4 s \<noteq> ''FHE-''"
  then show "FHEDecryptAttributes s
        = Inr \<lparr>attack = Integer 0, defense = Integer 0, speed = Integer 0, rarity = Integer 0\<rparr>"
    by (simp add: FHEDecryptAttributes_def)
qed

theorem client_round_trip_witness:
  "FHEEncryptAttributes \<lparr>attack = 120, defense = - 25, speed = 0, rarity = 7\<rparr>
     = ''FHE-MTIwLC0yNSwwLDc='' \<and>
   FHEDecryptAttributes ''FHE-MTIwLC0yNSwwLDc=''
     = Inr \<lparr>attack = Integer 120, defense = Integer (- 25), speed = Integer 0,
            rarity = Integer 7\<rparr> \<and>
   take 4 ''MTIwLC0yNSwwLDc='' \<noteq> ''FHE-'' \<and>
   FHEDecryptAttributes ''MTIwLC0yNSwwLDc=''
     = Inr \<lparr>attack = Integer 0, defense = Integer 0, speed = Integer 0, rarity = Integer 0\<rparr>"
proof -
  have e: "FHEEncryptAttributes \<lparr>attack = 120, defense = - 25, speed = 0, rarity = 7\<rparr>
     = ''FHE-MTIwLC0yNSwwLDc=''"
    by code_simp
  have n: "take 4 ''MTIwLC0yNSwwLDc='' \<noteq> ''FHE-''"
    by simp
  from client_round_trip
         [of "\<lparr>attack = 120, defense = - 25, speed = 0, rarity = 7\<rparr>" "''MTIwLC0yNSwwLDc=''"]
       e n
  show ?thesis by simp
qed

end
